theory Spec2Isabelle
  imports Main "HOL-Library.Multiset"
begin

unbundle bit_operations_syntax

section \<open>Python values used by \<^verbatim>\<open>log-processor/app.py\<close>\<close>

text \<open>
  A Python \<^verbatim>\<open>str\<close> is a sequence of Unicode code points, so it is modelled as a list of
  natural numbers (\<open>48\<close> is \<^verbatim>\<open>'0'\<close>, \<open>46\<close> is \<^verbatim>\<open>'.'\<close>, \<open>47\<close> is \<^verbatim>\<open>'/'\<close>).  \<open>str_of\<close> embeds
  an ASCII literal.  Python integers are unbounded: counters are \<open>int\<close>, address values
  and lengths are \<open>nat\<close>.
\<close>

type_synonym pystr = "nat list"

definition str_of :: "string \<Rightarrow> pystr" where
  "str_of s = map of_char s"

text \<open>
  The part of Unicode that the program consults beyond ASCII (through \<^verbatim>\<open>\b\<close> of the
  \<^verbatim>\<open>re\<close> module and through \<^verbatim>\<open>str.strip\<close>) depends on the Unicode tables of the
  interpreter; they are a parameter of the model.
\<close>

record unicode_tables =
  isalnum_tab :: "nat \<Rightarrow> bool"
  isspace_tab :: "nat \<Rightarrow> bool"

text \<open>
  Exceptions are values.  \<^verbatim>\<open>AddressValueError\<close> and \<^verbatim>\<open>NetmaskValueError\<close> are subclasses
  of \<^verbatim>\<open>ValueError\<close>; \<^verbatim>\<open>KeyboardInterrupt\<close> is the only one here that is not an
  \<^verbatim>\<open>Exception\<close>.
\<close>

datatype exn =
    ValueError | AddressValueError | NetmaskValueError
  | OSError | AttributeError | PyMongoError | KeyboardInterrupt

definition is_ValueError :: "exn \<Rightarrow> bool" where
  "is_ValueError e \<longleftrightarrow> e = ValueError \<or> e = AddressValueError \<or> e = NetmaskValueError"

definition is_Exception :: "exn \<Rightarrow> bool" where
  "is_Exception e \<longleftrightarrow> e \<noteq> KeyboardInterrupt"

section \<open>The standard library module \<^verbatim>\<open>ipaddress\<close>\<close>

text \<open>
  \<^verbatim>\<open>IPv4Address(s)\<close> for a string, as CPython 3.9.5 and later implement it
  (\<^verbatim>\<open>_parse_octet\<close>, \<^verbatim>\<open>_ip_int_from_string\<close>, \<^verbatim>\<open>IPv4Address.__init__\<close>).
\<close>

definition is_ascii_digit :: "nat \<Rightarrow> bool" where
  "is_ascii_digit c \<longleftrightarrow> 48 \<le> c \<and> c \<le> 57"

definition int_of_str :: "pystr \<Rightarrow> nat" where
  "int_of_str s = foldl (\<lambda>a c. 10 * a + (c - 48)) 0 s"

definition parse_octet :: "pystr \<Rightarrow> exn + nat" where
  "parse_octet octet_str =
     (if octet_str = [] then Inl ValueError
      else if \<not> list_all is_ascii_digit octet_str then Inl ValueError
      else if length octet_str > 3 then Inl ValueError
      else if octet_str \<noteq> [48] \<and> hd octet_str = 48 then Inl ValueError
      else let octet_int = int_of_str octet_str
           in if octet_int > 255 then Inl ValueError else Inr octet_int)"

text \<open>\<^verbatim>\<open>s.split(sep)\<close> for a separator of one character.\<close>

fun str_split :: "nat \<Rightarrow> pystr \<Rightarrow> pystr list" where
  "str_split sep [] = [[]]"
| "str_split sep (c # cs) =
     (if c = sep then [] # str_split sep cs
      else (case str_split sep cs of
              [] \<Rightarrow> [[c]]
            | w # ws \<Rightarrow> (c # w) # ws))"

text \<open>\<^verbatim>\<open>map(cls._parse_octet, octets)\<close>, consumed from the left: the first failure is raised.\<close>

fun parse_octets :: "pystr list \<Rightarrow> exn + nat list" where
  "parse_octets [] = Inr []"
| "parse_octets (s # ss) =
     (case parse_octet s of
        Inl e \<Rightarrow> Inl e
      | Inr v \<Rightarrow> (case parse_octets ss of Inl e \<Rightarrow> Inl e | Inr vs \<Rightarrow> Inr (v # vs)))"

definition from_bytes_big :: "nat list \<Rightarrow> nat" where
  "from_bytes_big bs = foldl (\<lambda>a b. 256 * a + b) 0 bs"

definition ip_int_from_string :: "pystr \<Rightarrow> exn + nat" where
  "ip_int_from_string ip_str =
     (if ip_str = [] then Inl AddressValueError
      else let octets = str_split 46 ip_str
           in if length octets \<noteq> 4 then Inl AddressValueError
              else (case parse_octets octets of
                      Inl e \<Rightarrow> if is_ValueError e then Inl AddressValueError else Inl e
                    | Inr bs \<Rightarrow> Inr (from_bytes_big bs)))"

definition IPv4Address :: "pystr \<Rightarrow> exn + nat" where
  "IPv4Address address =
     (if 47 \<in> set address then Inl AddressValueError else ip_int_from_string address)"

text \<open>
  \<^verbatim>\<open>IPv4Network('a.b.c.d/n')\<close> (strict): the literal is given as its address part and its
  prefix length.  A network keeps its network address and its netmask, both as integers.
\<close>

record ipv4network =
  network_address :: nat
  netmask :: nat

definition ALL_ONES :: nat where
  "ALL_ONES = 2 ^ 32 - 1"

definition ip_int_from_prefix :: "nat \<Rightarrow> nat" where
  "ip_int_from_prefix prefixlen = ALL_ONES XOR drop_bit prefixlen ALL_ONES"

definition IPv4Network :: "pystr \<Rightarrow> nat \<Rightarrow> exn + ipv4network" where
  "IPv4Network addr prefixlen =
     (case IPv4Address addr of
        Inl e \<Rightarrow> Inl e
      | Inr packed \<Rightarrow>
          if prefixlen > 32 then Inl NetmaskValueError
          else let mask = ip_int_from_prefix prefixlen
               in if packed AND mask \<noteq> packed then Inl ValueError
                  else Inr \<lparr>network_address = packed, netmask = mask\<rparr>)"

text \<open>\<^verbatim>\<open>ip in network\<close> (\<^verbatim>\<open>_BaseNetwork.__contains__\<close> for an address of the same version).\<close>

definition contains :: "ipv4network \<Rightarrow> nat \<Rightarrow> bool" where
  "contains network ip \<longleftrightarrow> ip AND netmask network = network_address network"

section \<open>Validation and classification (\<^verbatim>\<open>IPProcessor\<close>)\<close>

text \<open>
  \<^verbatim>\<open>self.private_ranges\<close> is assigned once in \<^verbatim>\<open>__init__\<close> and never changed; it is a
  constant of the model.  A constructor call that raised would be dropped from the list
  by the comprehension; \<open>private_ranges_eq\<close> below shows that all three are there.
\<close>

definition private_ranges :: "ipv4network list" where
  "private_ranges =
     [n. Inr n \<leftarrow> [IPv4Network (str_of ''10.0.0.0'') 8,
                  IPv4Network (str_of ''172.16.0.0'') 12,
                  IPv4Network (str_of ''192.168.0.0'') 16]]"

definition is_valid_ip :: "pystr \<Rightarrow> exn + bool" where
  "is_valid_ip ip_str =
     (case IPv4Address ip_str of
        Inr ip \<Rightarrow> Inr True
      | Inl e \<Rightarrow> if e = AddressValueError then Inr False else Inl e)"

definition is_private_ip :: "pystr \<Rightarrow> exn + bool" where
  "is_private_ip ip_str =
     (case IPv4Address ip_str of
        Inr ip \<Rightarrow> Inr (list_ex (\<lambda>network. contains network ip) private_ranges)
      | Inl e \<Rightarrow> if e = AddressValueError then Inr False else Inl e)"

section \<open>The pattern \<^verbatim>\<open>\b(?:[0-9]{1,3}\.){3}[0-9]{1,3}\b\<close>\<close>

text \<open>
  \<^verbatim>\<open>\w\<close> of a \<^verbatim>\<open>str\<close> pattern: ASCII letters, digits and the underscore, and whatever
  \<^verbatim>\<open>str.isalnum\<close> accepts beyond ASCII.  \<^verbatim>\<open>\b\<close> holds between two positions of which exactly
  one is a word character; the positions before the first and after the last character
  count as non-word.
\<close>

definition is_word_char :: "unicode_tables \<Rightarrow> nat \<Rightarrow> bool" where
  "is_word_char U c \<longleftrightarrow>
     (if c < 128
      then is_ascii_digit c \<or> (65 \<le> c \<and> c \<le> 90) \<or> (97 \<le> c \<and> c \<le> 122) \<or> c = 95
      else isalnum_tab U c)"

definition word_at :: "unicode_tables \<Rightarrow> nat option \<Rightarrow> bool" where
  "word_at U p = (case p of None \<Rightarrow> False | Some c \<Rightarrow> is_word_char U c)"

text \<open>
  A backtracking matcher maps a state (the text matched so far, the input that remains)
  to the list of states in which it can succeed, in the order in which the engine tries
  them.  Sequencing is \<open>List.bind\<close>; the match reported is the head of the list.
  \<open>prev\<close> is the character before the position where the attempt starts.
\<close>

type_synonym mstate = "pystr \<times> pystr"

definition word_boundary :: "unicode_tables \<Rightarrow> nat option \<Rightarrow> mstate \<Rightarrow> mstate list" where
  "word_boundary U prev st =
     (case st of (m, s) \<Rightarrow>
        if word_at U (if m = [] then prev else Some (last m))
             \<noteq> word_at U (case s of [] \<Rightarrow> None | c # cs \<Rightarrow> Some c)
        then [(m, s)] else [])"

text \<open>\<^verbatim>\<open>[0-9]{1,3}\<close> is greedy: three digits are tried first, then two, then one.\<close>

definition digits_1_3 :: "mstate \<Rightarrow> mstate list" where
  "digits_1_3 st =
     (case st of (m, s) \<Rightarrow>
        [(m @ take k s, drop k s).
           k \<leftarrow> [3, 2, 1], k \<le> length s, list_all is_ascii_digit (take k s)])"

definition dot :: "mstate \<Rightarrow> mstate list" where
  "dot st =
     (case st of (m, s) \<Rightarrow>
        (case s of [] \<Rightarrow> [] | c # cs \<Rightarrow> if c = 46 then [(m @ [c], cs)] else []))"

definition octet_dot :: "mstate \<Rightarrow> mstate list" where
  "octet_dot st = List.bind (digits_1_3 st) dot"

definition ip_pattern :: "unicode_tables \<Rightarrow> nat option \<Rightarrow> pystr \<Rightarrow> mstate list" where
  "ip_pattern U prev s =
     List.bind (List.bind (List.bind (List.bind (List.bind
       (word_boundary U prev ([], s)) octet_dot) octet_dot) octet_dot) digits_1_3)
       (word_boundary U prev)"

lemma digits_1_3_sound:
  assumes "(m', s') \<in> set (digits_1_3 (m, s))"
  shows "\<exists>d. m' = m @ d \<and> s = d @ s' \<and> d \<noteq> [] \<and> length d \<le> 3 \<and> list_all is_ascii_digit d"
proof -
  from assms obtain k where k: "k \<in> {1, 2, 3}" "k \<le> length s"
    "list_all is_ascii_digit (take k s)" "m' = m @ take k s" "s' = drop k s"
    by (auto simp: digits_1_3_def split: if_splits)
  then have "take k s \<noteq> []" by auto
  with k show ?thesis
    by (intro exI [of _ "take k s"]) auto
qed

lemma dot_sound:
  assumes "(m', s') \<in> set (dot (m, s))"
  shows "m' = m @ [46] \<and> s = 46 # s'"
  using assms by (auto simp: dot_def split: list.splits if_splits)

lemma octet_dot_sound:
  assumes "(m', s') \<in> set (octet_dot (m, s))"
  shows "\<exists>d. m' = m @ d @ [46] \<and> s = d @ 46 # s' \<and> d \<noteq> [] \<and> length d \<le> 3
           \<and> list_all is_ascii_digit d"
proof -
  from assms obtain m1 s1 where a: "(m1, s1) \<in> set (digits_1_3 (m, s))"
    and b: "(m', s') \<in> set (dot (m1, s1))"
    by (auto simp: octet_dot_def List.bind_def)
  from digits_1_3_sound [OF a] obtain d where d: "m1 = m @ d" "s = d @ s1" "d \<noteq> []"
    "length d \<le> 3" "list_all is_ascii_digit d" by blast
  from dot_sound [OF b] have "m' = m1 @ [46]" "s1 = 46 # s'" by simp_all
  with d show ?thesis by (intro exI [of _ d]) simp
qed

lemma word_boundary_sound:
  assumes "(m', s') \<in> set (word_boundary U prev (m, s))"
  shows "m' = m \<and> s' = s"
  using assms by (auto simp: word_boundary_def split: if_splits)

text \<open>Every match is four groups of one to three digits, separated by dots, at the front
  of the input.\<close>

lemma ip_pattern_sound:
  assumes "(m, rest) \<in> set (ip_pattern U prev s)"
  shows "\<exists>d1 d2 d3 d4. m = d1 @ 46 # d2 @ 46 # d3 @ 46 # d4 \<and> s = m @ rest
           \<and> (\<forall>d \<in> {d1, d2, d3, d4}. d \<noteq> [] \<and> length d \<le> 3 \<and> list_all is_ascii_digit d)"
proof -
  from assms obtain m0 s0 m1 s1 m2 s2 m3 s3 m4 s4 where
    st: "(m0, s0) \<in> set (word_boundary U prev ([], s))"
        "(m1, s1) \<in> set (octet_dot (m0, s0))"
        "(m2, s2) \<in> set (octet_dot (m1, s1))"
        "(m3, s3) \<in> set (octet_dot (m2, s2))"
        "(m4, s4) \<in> set (digits_1_3 (m3, s3))"
        "(m, rest) \<in> set (word_boundary U prev (m4, s4))"
    unfolding ip_pattern_def List.bind_def by fastforce
  from word_boundary_sound [OF st(1)] have 0: "m0 = []" "s0 = s" by simp_all
  from octet_dot_sound [OF st(2)] obtain d1 where 1: "m1 = m0 @ d1 @ [46]" "s0 = d1 @ 46 # s1"
    "d1 \<noteq> []" "length d1 \<le> 3" "list_all is_ascii_digit d1" by blast
  from octet_dot_sound [OF st(3)] obtain d2 where 2: "m2 = m1 @ d2 @ [46]" "s1 = d2 @ 46 # s2"
    "d2 \<noteq> []" "length d2 \<le> 3" "list_all is_ascii_digit d2" by blast
  from octet_dot_sound [OF st(4)] obtain d3 where 3: "m3 = m2 @ d3 @ [46]" "s2 = d3 @ 46 # s3"
    "d3 \<noteq> []" "length d3 \<le> 3" "list_all is_ascii_digit d3" by blast
  from digits_1_3_sound [OF st(5)] obtain d4 where 4: "m4 = m3 @ d4" "s3 = d4 @ s4"
    "d4 \<noteq> []" "length d4 \<le> 3" "list_all is_ascii_digit d4" by blast
  from word_boundary_sound [OF st(6)] have 5: "m = m4" "rest = s4" by simp_all
  show ?thesis
    using 0 1 2 3 4 5 by (intro exI [of _ d1] exI [of _ d2] exI [of _ d3] exI [of _ d4]) simp
qed

lemma ip_pattern_consumes:
  assumes "ip_pattern U prev s = (m, rest) # ms"
  shows "length rest < length s"
proof -
  have "(m, rest) \<in> set (ip_pattern U prev s)" using assms by simp
  from ip_pattern_sound [OF this] show ?thesis by auto
qed

text \<open>
  \<^verbatim>\<open>ip_pattern.findall(line)\<close>: the scan tries each position from the left; after a match it
  goes on where the match ended.  The pattern has no group that captures, so the items
  are the matched texts.
\<close>

function findall_from :: "unicode_tables \<Rightarrow> nat option \<Rightarrow> pystr \<Rightarrow> pystr list" where
  "findall_from U prev [] = []"
| "findall_from U prev (c # cs) =
     (case ip_pattern U prev (c # cs) of
        [] \<Rightarrow> findall_from U (Some c) cs
      | (m, rest) # ms \<Rightarrow> m # findall_from U (Some (last m)) rest)"
  by pat_completeness auto
termination
proof (relation "measure (\<lambda>(U, prev, s). length s)")
  show "wf (measure (\<lambda>(U, prev, s). length s))" by simp
next
  fix U :: unicode_tables and prev :: "nat option" and c :: nat and cs :: pystr
  show "((U, Some c, cs), (U, prev, c # cs)) \<in> measure (\<lambda>(U, prev, s). length s)" by simp
next
  fix U :: unicode_tables and prev :: "nat option" and c :: nat and cs :: pystr
    and x21 :: mstate and ms :: "mstate list" and m rest :: pystr
  assume "ip_pattern U prev (c # cs) = x21 # ms" "(m, rest) = x21"
  then have "ip_pattern U prev (c # cs) = (m, rest) # ms" by simp
  from ip_pattern_consumes [OF this]
  show "((U, Some (last m), rest), (U, prev, c # cs)) \<in> measure (\<lambda>(U, prev, s). length s)"
    by simp
qed

definition findall :: "unicode_tables \<Rightarrow> pystr \<Rightarrow> pystr list" where
  "findall U line = findall_from U None line"

section \<open>Extraction (\<^verbatim>\<open>IPProcessor.extract_ips_from_line\<close>)\<close>

text \<open>The loop over \<^verbatim>\<open>potential_ips\<close>, with \<^verbatim>\<open>valid_ips\<close> as its accumulator.\<close>

fun keep_valid :: "pystr list \<Rightarrow> pystr list \<Rightarrow> exn + pystr list" where
  "keep_valid [] valid_ips = Inr valid_ips"
| "keep_valid (ip # potential_ips) valid_ips =
     (case is_valid_ip ip of
        Inl e \<Rightarrow> Inl e
      | Inr ok \<Rightarrow> keep_valid potential_ips (if ok then valid_ips @ [ip] else valid_ips))"

definition extract_ips_from_line :: "unicode_tables \<Rightarrow> pystr \<Rightarrow> exn + pystr list" where
  "extract_ips_from_line U line = keep_valid (findall U line) []"

section \<open>The store (a MongoDB server, seen through \<^verbatim>\<open>pymongo\<close>)\<close>

text \<open>
  The database \<^verbatim>\<open>ip_database\<close> holds the collections \<^verbatim>\<open>public_ips\<close> and \<^verbatim>\<open>private_ips\<close>.
  \<open>reachable\<close> says whether \<^verbatim>\<open>ping\<close> answers.  \<open>faults\<close> is the schedule of failures of the
  operations to come: an operation takes the head of the list and raises when it is
  \<open>True\<close>; the empty list is a server that never fails.  A failed operation changes no
  document.
\<close>

record document =
  doc_ip :: pystr
  doc_type :: string
  first_seen :: "nat option"

record mongo =
  reachable :: bool
  public_ips :: "document list"
  private_ips :: "document list"
  faults :: "bool list"

definition next_fault :: "mongo \<Rightarrow> bool \<times> mongo" where
  "next_fault d = (case faults d of [] \<Rightarrow> (False, d) | f # fs \<Rightarrow> (f, d\<lparr>faults := fs\<rparr>))"

definition collection :: "bool \<Rightarrow> mongo \<Rightarrow> document list" where
  "collection is_private d = (if is_private then private_ips d else public_ips d)"

definition insert_one :: "bool \<Rightarrow> document \<Rightarrow> mongo \<Rightarrow> mongo" where
  "insert_one is_private doc d =
     (if is_private then d\<lparr>private_ips := private_ips d @ [doc]\<rparr>
      else d\<lparr>public_ips := public_ips d @ [doc]\<rparr>)"

text \<open>
  \<^verbatim>\<open>collection.update_one({"ip": ip}, {"$setOnInsert": document}, upsert=True)\<close>.  The value
  says whether \<^verbatim>\<open>result.upserted_id\<close> is set: a document that matches the filter is left as
  it is, otherwise the filter's field and the \<^verbatim>\<open>$setOnInsert\<close> fields are inserted.
\<close>

definition update_one :: "bool \<Rightarrow> pystr \<Rightarrow> document \<Rightarrow> mongo \<Rightarrow> (exn + bool) \<times> mongo" where
  "update_one is_private ip doc d =
     (case next_fault d of (fails, d') \<Rightarrow>
        if fails then (Inl PyMongoError, d')
        else if list_ex (\<lambda>x. doc_ip x = ip) (collection is_private d') then (Inr False, d')
        else (Inr True, insert_one is_private (doc\<lparr>doc_ip := ip\<rparr>) d'))"

text \<open>\<^verbatim>\<open>collection.count_documents({})\<close>.\<close>

definition count_documents :: "bool \<Rightarrow> mongo \<Rightarrow> (exn + nat) \<times> mongo" where
  "count_documents is_private d =
     (case next_fault d of (fails, d') \<Rightarrow>
        if fails then (Inl PyMongoError, d')
        else (Inr (length (collection is_private d')), d'))"

text \<open>
  \<^verbatim>\<open>create_index("ip", unique=True)\<close> on both collections succeeds unless a collection
  already holds two documents with the same \<^verbatim>\<open>ip\<close>.
\<close>

definition unique_index_ok :: "mongo \<Rightarrow> bool" where
  "unique_index_ok d \<longleftrightarrow>
     distinct (map doc_ip (public_ips d)) \<and> distinct (map doc_ip (private_ips d))"

section \<open>The world outside the processor: store, log stream, file system\<close>

text \<open>
  The logger is configured at level \<^verbatim>\<open>INFO\<close>: \<^verbatim>\<open>logger.debug\<close> emits nothing, every
  \<^verbatim>\<open>logger.info\<close> and \<^verbatim>\<open>logger.error\<close> call appends one message.
\<close>

datatype log_msg =
    Connecting | Connected | ConnectFailed | ConnectUnexpected
  | ErrorStoringIP pystr
  | LogFileNotFound pystr | StartProcessing pystr | ProcessedLines nat
  | ProcessingCompleted | ErrorProcessing
  | StatisticsHeader | TotalLinesProcessed int | TotalIPsFound int
  | WithinFileDuplicates int | UniqueIPsFromFile int | NewPublicStored int
  | NewPrivateStored int | DatabaseDuplicatesSkipped int
  | TotalPublicInDatabase nat | TotalPrivateInDatabase nat
  | MathCheckProcessed int | MathCheckShouldEqual int | ErrorGettingCounts
  | ConnectionClosed
  | FailedToConnectExiting | CompletedSuccessfully | ProcessingFailed
  | Interrupted | UnexpectedError

text \<open>\<open>store_calls\<close> is a trace, for the proofs only: the arguments of every call of
  \<^verbatim>\<open>store_ip_in_mongodb\<close>, in order.\<close>

record world =
  db :: mongo
  log :: "log_msg list"
  store_calls :: "(pystr \<times> bool) list"

definition logger :: "world \<Rightarrow> log_msg \<Rightarrow> world" where
  "logger W m = W\<lparr>log := log W @ [m]\<rparr>"

text \<open>
  A text file opened with \<^verbatim>\<open>errors='ignore'\<close> yields its lines as strings; the iteration
  ends at the end of the file, with an I/O error, or because the user interrupts.
  \<open>Missing\<close> is a path for which \<^verbatim>\<open>os.path.exists\<close> is false, \<open>Unopenable\<close> one that exists
  and that \<^verbatim>\<open>open\<close> refuses.
\<close>

datatype ending = EOF | ReadError | Interrupt

datatype log_file = Missing | Unopenable | File "pystr list" ending

text \<open>\<^verbatim>\<open>line.strip()\<close>.\<close>

definition is_space :: "unicode_tables \<Rightarrow> nat \<Rightarrow> bool" where
  "is_space U c \<longleftrightarrow>
     (if c < 128 then (9 \<le> c \<and> c \<le> 13) \<or> (28 \<le> c \<and> c \<le> 32) else isspace_tab U c)"

definition strip :: "unicode_tables \<Rightarrow> pystr \<Rightarrow> pystr" where
  "strip U s = rev (dropWhile (is_space U) (rev (dropWhile (is_space U) s)))"

section \<open>The processor (\<^verbatim>\<open>class IPProcessor\<close>)\<close>

datatype stat_key =
    total_lines_processed | total_ips_found | unique_public_ips_stored
  | unique_private_ips_stored | duplicate_ips_skipped | within_file_duplicates

text \<open>
  \<open>client\<close>: \<^verbatim>\<open>self.client\<close> is not \<^verbatim>\<open>None\<close>.  \<open>collections\<close>: the attributes
  \<^verbatim>\<open>public_ips_collection\<close> and \<^verbatim>\<open>private_ips_collection\<close> exist.  \<open>processed_ips_attr\<close>: the
  attribute \<^verbatim>\<open>processed_ips\<close> that \<^verbatim>\<open>print_statistics\<close> looks for, \<open>None\<close> when the object
  has no such attribute.
\<close>

record processor =
  client :: bool
  collections :: bool
  stats :: "stat_key \<Rightarrow> int"
  processed_ips_attr :: "pystr set option"

definition IPProcessor_init :: processor where
  "IPProcessor_init =
     \<lparr>client = False, collections = False, stats = (\<lambda>k. 0), processed_ips_attr = None\<rparr>"

text \<open>\<^verbatim>\<open>self.stats[k] += 1\<close>\<close>

definition inc :: "stat_key \<Rightarrow> processor \<Rightarrow> processor" where
  "inc k P = P\<lparr>stats := (stats P)(k := stats P k + 1)\<rparr>"

text \<open>
  The connection string is taken to be well formed, so that \<^verbatim>\<open>MongoClient(...)\<close> returns
  a client; \<^verbatim>\<open>ping\<close> raises \<^verbatim>\<open>ConnectionFailure\<close> when the server is not reachable, and
  \<^verbatim>\<open>create_index\<close> raises when a unique index cannot be made.
\<close>

definition connect_to_mongodb :: "processor \<Rightarrow> world \<Rightarrow> bool \<times> processor \<times> world" where
  "connect_to_mongodb P W0 =
     (let W = logger W0 Connecting;
          P1 = P\<lparr>client := True\<rparr>
      in if \<not> reachable (db W) then (False, P1, logger W ConnectFailed)
         else let P2 = P1\<lparr>collections := True\<rparr>
              in if \<not> unique_index_ok (db W) then (False, P2, logger W ConnectUnexpected)
                 else (True, P2, logger W Connected))"

text \<open>
  Without the collection attributes the first statement raises \<^verbatim>\<open>AttributeError\<close>.  That
  and the \<^verbatim>\<open>PyMongoError\<close> of \<open>update_one\<close> are \<^verbatim>\<open>Exception\<close>s, which the handler turns
  into \<^verbatim>\<open>False\<close>.
\<close>

definition store_ip_in_mongodb :: "processor \<Rightarrow> pystr \<Rightarrow> bool \<Rightarrow> world \<Rightarrow> bool \<times> world" where
  "store_ip_in_mongodb P ip is_private W0 =
     (let W = W0\<lparr>store_calls := store_calls W0 @ [(ip, is_private)]\<rparr>
      in if \<not> collections P then (False, logger W (ErrorStoringIP ip))
         else let ip_type = (if is_private then ''private'' else ''public'');
                  doc = \<lparr>doc_ip = ip, doc_type = ip_type, first_seen = None\<rparr>
              in (case update_one is_private ip doc (db W) of
                    (Inl e, d) \<Rightarrow> (False, logger (W\<lparr>db := d\<rparr>) (ErrorStoringIP ip))
                  | (Inr upserted, d) \<Rightarrow>
                      if upserted then (True, W\<lparr>db := d\<rparr>) else (False, W\<lparr>db := d\<rparr>)))"

text \<open>The local state of \<^verbatim>\<open>process_log_file\<close>: the object, the set \<^verbatim>\<open>processed_ips\<close>, the
  world.\<close>

record scan =
  self :: processor
  processed_ips :: "pystr set"
  world :: world

text \<open>The body of \<^verbatim>\<open>for ip in ips_in_line\<close>.  The first component is the exception that
  leaves the body, if any.\<close>

definition process_ip :: "pystr \<Rightarrow> scan \<Rightarrow> exn option \<times> scan" where
  "process_ip ip S0 =
     (let S = S0\<lparr>self := inc total_ips_found (self S0)\<rparr>
      in if ip \<in> processed_ips S
         then (None, S\<lparr>self := inc within_file_duplicates (self S)\<rparr>)
         else let S1 = S\<lparr>processed_ips := insert ip (processed_ips S)\<rparr>
              in (case is_private_ip ip of
                    Inl e \<Rightarrow> (Some e, S1)
                  | Inr is_private \<Rightarrow>
                      (case store_ip_in_mongodb (self S1) ip is_private (world S1) of
                         (success, W) \<Rightarrow>
                           (None, S1\<lparr>world := W,
                                     self := inc (if success
                                                  then (if is_private then unique_private_ips_stored
                                                        else unique_public_ips_stored)
                                                  else duplicate_ips_skipped) (self S1)\<rparr>))))"

fun process_ips :: "pystr list \<Rightarrow> scan \<Rightarrow> exn option \<times> scan" where
  "process_ips [] S = (None, S)"
| "process_ips (ip # ips) S =
     (case process_ip ip S of
        (Some e, S') \<Rightarrow> (Some e, S')
      | (None, S') \<Rightarrow> process_ips ips S')"

text \<open>The body of \<^verbatim>\<open>for line_num, line in enumerate(file, 1)\<close>.\<close>

definition process_line :: "unicode_tables \<Rightarrow> nat \<Rightarrow> pystr \<Rightarrow> scan \<Rightarrow> exn option \<times> scan" where
  "process_line U line_num line S0 =
     (let S = S0\<lparr>self := inc total_lines_processed (self S0)\<rparr>
      in (case extract_ips_from_line U (strip U line) of
            Inl e \<Rightarrow> (Some e, S)
          | Inr ips_in_line \<Rightarrow>
              (case process_ips ips_in_line S of
                 (Some e, S') \<Rightarrow> (Some e, S')
               | (None, S') \<Rightarrow>
                   (None, if line_num mod 1000 = 0
                          then S'\<lparr>world := logger (world S') (ProcessedLines line_num)\<rparr>
                          else S'))))"

fun process_lines ::
  "unicode_tables \<Rightarrow> nat \<Rightarrow> pystr list \<Rightarrow> ending \<Rightarrow> scan \<Rightarrow> exn option \<times> scan" where
  "process_lines U line_num [] e S =
     (case e of
        EOF \<Rightarrow> (None, S)
      | ReadError \<Rightarrow> (Some OSError, S)
      | Interrupt \<Rightarrow> (Some KeyboardInterrupt, S))"
| "process_lines U line_num (line # lines) e S =
     (case process_line U line_num line S of
        (Some x, S') \<Rightarrow> (Some x, S')
      | (None, S') \<Rightarrow> process_lines U (Suc line_num) lines e S')"

text \<open>The \<^verbatim>\<open>try\<close> block of \<^verbatim>\<open>process_log_file\<close>: \<^verbatim>\<open>open\<close>, then the loop.\<close>

definition scan_file :: "unicode_tables \<Rightarrow> log_file \<Rightarrow> scan \<Rightarrow> exn option \<times> scan" where
  "scan_file U f S =
     (case f of
        File lines e \<Rightarrow> process_lines U 1 lines e S
      | Unopenable \<Rightarrow> (Some OSError, S)
      | Missing \<Rightarrow> (Some OSError, S))"

definition process_log_file ::
  "unicode_tables \<Rightarrow> (pystr \<Rightarrow> log_file) \<Rightarrow> pystr \<Rightarrow> processor \<Rightarrow> world
     \<Rightarrow> (exn + bool) \<times> processor \<times> world" where
  "process_log_file U fs log_file_path P W =
     (if fs log_file_path = Missing
      then (Inr False, P, logger W (LogFileNotFound log_file_path))
      else (case scan_file U (fs log_file_path)
                   \<lparr>self = P, processed_ips = {}, world = logger W (StartProcessing log_file_path)\<rparr> of
              (None, S) \<Rightarrow> (Inr True, self S, logger (world S) ProcessingCompleted)
            | (Some e, S) \<Rightarrow>
                if is_Exception e then (Inr False, self S, logger (world S) ErrorProcessing)
                else (Inl e, self S, world S)))"

definition print_statistics :: "processor \<Rightarrow> world \<Rightarrow> world" where
  "print_statistics P W0 =
     (let W = foldl logger W0
                [StatisticsHeader,
                 TotalLinesProcessed (stats P total_lines_processed),
                 TotalIPsFound (stats P total_ips_found),
                 WithinFileDuplicates (stats P within_file_duplicates),
                 UniqueIPsFromFile (case processed_ips_attr P of
                                      None \<Rightarrow> 0
                                    | Some ips \<Rightarrow> int (card ips)),
                 NewPublicStored (stats P unique_public_ips_stored),
                 NewPrivateStored (stats P unique_private_ips_stored),
                 DatabaseDuplicatesSkipped (stats P duplicate_ips_skipped)]
      in if \<not> collections P then logger W ErrorGettingCounts
         else (case count_documents False (db W) of
                 (Inl e, d) \<Rightarrow> logger (W\<lparr>db := d\<rparr>) ErrorGettingCounts
               | (Inr public_count, d) \<Rightarrow>
                   (case count_documents True d of
                      (Inl e, d') \<Rightarrow> logger (W\<lparr>db := d'\<rparr>) ErrorGettingCounts
                    | (Inr private_count, d') \<Rightarrow>
                        foldl logger (W\<lparr>db := d'\<rparr>)
                          [TotalPublicInDatabase public_count,
                           TotalPrivateInDatabase private_count,
                           MathCheckProcessed
                             (stats P unique_public_ips_stored
                                + stats P unique_private_ips_stored
                                + stats P duplicate_ips_skipped),
                           MathCheckShouldEqual
                             (stats P total_ips_found - stats P within_file_duplicates)])))"

definition close_connection :: "processor \<Rightarrow> world \<Rightarrow> world" where
  "close_connection P W = (if client P then logger W ConnectionClosed else W)"

section \<open>\<^verbatim>\<open>main\<close>\<close>

text \<open>How the \<^verbatim>\<open>try\<close> block of \<^verbatim>\<open>main\<close> is left: at its end, through \<^verbatim>\<open>sys.exit\<close>, or by an
  exception.\<close>

datatype outcome = Returned | SystemExit int | Raised exn

definition main_try ::
  "unicode_tables \<Rightarrow> (pystr \<Rightarrow> log_file) \<Rightarrow> pystr \<Rightarrow> processor \<Rightarrow> world
     \<Rightarrow> outcome \<times> processor \<times> world" where
  "main_try U fs log_file_path P W =
     (case connect_to_mongodb P W of
        (ok, P1, W1) \<Rightarrow>
          if \<not> ok then (SystemExit 1, P1, logger W1 FailedToConnectExiting)
          else (case process_log_file U fs log_file_path P1 W1 of
                  (Inl e, P2, W2) \<Rightarrow> (Raised e, P2, W2)
                | (Inr success, P2, W2) \<Rightarrow>
                    if success
                    then (Returned, P2, logger (print_statistics P2 W2) CompletedSuccessfully)
                    else (SystemExit 1, P2, logger W2 ProcessingFailed)))"

text \<open>
  \<open>env\<close> is the value of \<^verbatim>\<open>LOG_FILE_PATH\<close> in the environment; \<open>LOG_FILE_PATH env\<close> is
  \<^verbatim>\<open>os.environ.get('LOG_FILE_PATH', '/app/logs/sample.log')\<close>.  The process starts with an
  empty log stream.  The result is the exit status of the process and the world it
  leaves: status 0 when \<^verbatim>\<open>main\<close> returns, the argument of \<^verbatim>\<open>sys.exit\<close> otherwise.
\<close>

definition LOG_FILE_PATH :: "pystr option \<Rightarrow> pystr" where
  "LOG_FILE_PATH env = (case env of None \<Rightarrow> str_of ''/app/logs/sample.log'' | Some p \<Rightarrow> p)"

definition main ::
  "unicode_tables \<Rightarrow> pystr option \<Rightarrow> (pystr \<Rightarrow> log_file) \<Rightarrow> mongo \<Rightarrow> int \<times> world" where
  "main U env fs d =
     (let log_file_path = LOG_FILE_PATH env;
          processor = IPProcessor_init
      in (case main_try U fs log_file_path processor \<lparr>db = d, log = [], store_calls = []\<rparr> of
            (out, P, W) \<Rightarrow>
              (case out of
                 Raised e \<Rightarrow>
                   if e = KeyboardInterrupt
                   then (0, close_connection P (logger W Interrupted))
                   else (1, close_connection P (logger W UnexpectedError))
               | SystemExit code \<Rightarrow> (code, close_connection P W)
               | Returned \<Rightarrow> (0, close_connection P W))))"

section \<open>Notions of the specification\<close>

text \<open>
  The address \<open>a.b.c.d\<close> as a number, and the block \<open>base/prefixlen\<close> as the interval of
  the \<open>2 ^ (32 - prefixlen)\<close> addresses that starts at \<open>base\<close>.
\<close>

definition ipv4 :: "nat \<Rightarrow> nat \<Rightarrow> nat \<Rightarrow> nat \<Rightarrow> nat" where
  "ipv4 a b c d = ((a * 256 + b) * 256 + c) * 256 + d"

definition in_block :: "nat \<Rightarrow> nat \<Rightarrow> nat \<Rightarrow> bool" where
  "in_block ip base prefixlen \<longleftrightarrow> base \<le> ip \<and> ip < base + 2 ^ (32 - prefixlen)"

text \<open>The decimal numeral of a number (Python's \<^verbatim>\<open>str(n)\<close>), and the dotted-decimal form of
  four numbers.\<close>

function decimal :: "nat \<Rightarrow> pystr" where
  "decimal n = (if n < 10 then [48 + n] else decimal (n div 10) @ [48 + n mod 10])"
  by pat_completeness auto
termination
  by (relation "measure (\<lambda>n. n)") auto

declare decimal.simps [simp del]

definition dotted_quad :: "nat \<Rightarrow> nat \<Rightarrow> nat \<Rightarrow> nat \<Rightarrow> pystr" where
  "dotted_quad a b c d = decimal a @ 46 # decimal b @ 46 # decimal c @ 46 # decimal d"

text \<open>The cross-check of \<^verbatim>\<open>print_statistics\<close> ("Math check") as a predicate on the counters.\<close>

definition cross_check :: "(stat_key \<Rightarrow> int) \<Rightarrow> bool" where
  "cross_check st \<longleftrightarrow>
     st unique_public_ips_stored + st unique_private_ips_stored + st duplicate_ips_skipped
       = st total_ips_found - st within_file_duplicates"

text \<open>The valid addresses that the scan of a list of lines meets, in order, with
  repetitions.\<close>

definition addresses_of_line :: "unicode_tables \<Rightarrow> pystr \<Rightarrow> pystr list" where
  "addresses_of_line U line =
     (case extract_ips_from_line U (strip U line) of Inr ips \<Rightarrow> ips | Inl e \<Rightarrow> [])"

definition scanned_addresses :: "unicode_tables \<Rightarrow> pystr list \<Rightarrow> pystr list" where
  "scanned_addresses U lines = concat (map (addresses_of_line U) lines)"

text \<open>The addresses of a list that are not in \<open>seen\<close>, each at its first occurrence.\<close>

fun new_addresses :: "pystr set \<Rightarrow> pystr list \<Rightarrow> pystr list" where
  "new_addresses seen [] = []"
| "new_addresses seen (x # xs) =
     (if x \<in> seen then new_addresses seen xs else x # new_addresses (insert x seen) xs)"

text \<open>The messages that only \<^verbatim>\<open>print_statistics\<close> writes.\<close>

fun statistics_msg :: "log_msg \<Rightarrow> bool" where
  "statistics_msg StatisticsHeader = True"
| "statistics_msg (TotalLinesProcessed n) = True"
| "statistics_msg (TotalIPsFound n) = True"
| "statistics_msg (WithinFileDuplicates n) = True"
| "statistics_msg (UniqueIPsFromFile n) = True"
| "statistics_msg (NewPublicStored n) = True"
| "statistics_msg (NewPrivateStored n) = True"
| "statistics_msg (DatabaseDuplicatesSkipped n) = True"
| "statistics_msg (TotalPublicInDatabase n) = True"
| "statistics_msg (TotalPrivateInDatabase n) = True"
| "statistics_msg (MathCheckProcessed n) = True"
| "statistics_msg (MathCheckShouldEqual n) = True"
| "statistics_msg ErrorGettingCounts = True"
| "statistics_msg m = False"

definition statistics_reported :: "world \<Rightarrow> bool" where
  "statistics_reported W \<longleftrightarrow> list_ex statistics_msg (log W)"

text \<open>The statistics messages of a log stream.\<close>

definition stat_log :: "world \<Rightarrow> log_msg list" where
  "stat_log W = filter statistics_msg (log W)"

text \<open>Unicode tables in which no character beyond ASCII is alphanumeric or white space;
  used for the concrete runs.\<close>

definition ascii_tables :: unicode_tables where
  "ascii_tables = \<lparr>isalnum_tab = (\<lambda>c. False), isspace_tab = (\<lambda>c. False)\<rparr>"

text \<open>A log file of one line, a store that is reachable, empty and never fails, the world
  at the start of a process, and a processor that has connected.\<close>

definition sample_line :: pystr where
  "sample_line = str_of ''10.0.0.1 8.8.8.8 10.0.0.1''"

definition sample_fs :: "ending \<Rightarrow> pystr \<Rightarrow> log_file" where
  "sample_fs e path = File [sample_line] e"

definition empty_store :: mongo where
  "empty_store = \<lparr>reachable = True, public_ips = [], private_ips = [], faults = []\<rparr>"

definition fresh_world :: "mongo \<Rightarrow> world" where
  "fresh_world d = \<lparr>db = d, log = [], store_calls = []\<rparr>"

definition connected :: processor where
  "connected = IPProcessor_init\<lparr>client := True, collections := True\<rparr>"

section \<open>Parsing addresses\<close>

lemma parse_octet_Inl: "parse_octet s = Inl e \<Longrightarrow> e = ValueError"
  by (auto simp: parse_octet_def Let_def split: if_splits)

lemma parse_octet_Inr: "parse_octet s = Inr v \<Longrightarrow> v \<le> 255"
  by (auto simp: parse_octet_def Let_def split: if_splits)

lemma parse_octets_Inl: "parse_octets ss = Inl e \<Longrightarrow> e = ValueError"
  by (induction ss arbitrary: e) (auto split: sum.splits dest: parse_octet_Inl)

lemma parse_octets_Inr:
  "parse_octets ss = Inr vs \<Longrightarrow> list_all2 (\<lambda>s v. parse_octet s = Inr v) ss vs"
  by (induction ss arbitrary: vs) (auto split: sum.splits)

lemma IPv4Address_Inl: "IPv4Address s = Inl e \<Longrightarrow> e = AddressValueError"
  by (auto simp: IPv4Address_def ip_int_from_string_def Let_def is_ValueError_def
      split: if_splits sum.splits dest: parse_octets_Inl)

lemma IPv4Address_Inr:
  assumes "IPv4Address s = Inr ip"
  shows "\<exists>o1 o2 o3 o4 a b c d. str_split 46 s = [o1, o2, o3, o4]
           \<and> parse_octet o1 = Inr a \<and> parse_octet o2 = Inr b
           \<and> parse_octet o3 = Inr c \<and> parse_octet o4 = Inr d \<and> ip = ipv4 a b c d"
proof -
  from assms obtain vs where len: "length (str_split 46 s) = 4"
    and vs: "parse_octets (str_split 46 s) = Inr vs" and ip: "ip = from_bytes_big vs"
    by (auto simp: IPv4Address_def ip_int_from_string_def Let_def
        split: if_splits sum.splits)
  from len obtain o1 o2 o3 o4 where os: "str_split 46 s = [o1, o2, o3, o4]"
    by (auto simp: length_Suc_conv numeral_eq_Suc)
  from parse_octets_Inr [OF vs] os obtain a b c d where
    "vs = [a, b, c, d]" "parse_octet o1 = Inr a" "parse_octet o2 = Inr b"
    "parse_octet o3 = Inr c" "parse_octet o4 = Inr d"
    by (auto simp: list_all2_Cons1)
  with os ip show ?thesis
    by (auto simp: from_bytes_big_def ipv4_def)
qed

lemma IPv4Address_bound:
  assumes "IPv4Address s = Inr ip"
  shows "ip < 2 ^ 32"
proof -
  from IPv4Address_Inr [OF assms] obtain o1 o2 o3 o4 a b c d where
    "parse_octet o1 = Inr a" "parse_octet o2 = Inr b"
    "parse_octet o3 = Inr c" "parse_octet o4 = Inr d" "ip = ipv4 a b c d" by blast
  then have "a \<le> 255" "b \<le> 255" "c \<le> 255" "d \<le> 255" "ip = ipv4 a b c d"
    by (auto dest: parse_octet_Inr)
  then show ?thesis by (simp add: ipv4_def)
qed

lemma private_ranges_eq:
  "private_ranges =
     [\<lparr>network_address = ipv4 10 0 0 0, netmask = ip_int_from_prefix 8\<rparr>,
      \<lparr>network_address = ipv4 172 16 0 0, netmask = ip_int_from_prefix 12\<rparr>,
      \<lparr>network_address = ipv4 192 168 0 0, netmask = ip_int_from_prefix 16\<rparr>]"
  by (simp add: private_ranges_def IPv4Network_def str_of_def IPv4Address_def
      ip_int_from_string_def parse_octet_def is_ascii_digit_def int_of_str_def
      from_bytes_big_def ip_int_from_prefix_def ALL_ONES_def ipv4_def)

section \<open>Netmasks and blocks\<close>

lemma ALL_ONES_mask: "ALL_ONES = mask 32"
  by (simp add: ALL_ONES_def mask_eq_exp_minus_1)

lemma and_netmask:
  assumes "ip < 2 ^ 32" "p \<le> 32"
  shows "ip AND ip_int_from_prefix p = push_bit (32 - p) (drop_bit (32 - p) ip)"
proof (rule bit_eqI)
  fix n
  have "bit ip n \<Longrightarrow> n < 32"
    using assms(1) by (metis bit_take_bit_iff take_bit_nat_eq_self)
  then show "bit (ip AND ip_int_from_prefix p) n = bit (push_bit (32 - p) (drop_bit (32 - p) ip)) n"
    using assms(2) by (auto simp: ip_int_from_prefix_def ALL_ONES_mask bit_simps)
qed

lemma contains_iff:
  assumes "ip < 2 ^ 32" "p \<le> 32" "base = b * 2 ^ (32 - p)"
  shows "ip AND ip_int_from_prefix p = base \<longleftrightarrow> base \<le> ip \<and> ip < base + 2 ^ (32 - p)"
proof -
  have "ip AND ip_int_from_prefix p = (ip div 2 ^ (32 - p)) * 2 ^ (32 - p)"
    using and_netmask [OF assms(1,2)] by (simp add: push_bit_eq_mult drop_bit_eq_div)
  moreover have "(ip div 2 ^ (32 - p)) * 2 ^ (32 - p) = b * 2 ^ (32 - p) \<longleftrightarrow> ip div 2 ^ (32 - p) = b"
    by simp
  moreover have "ip div 2 ^ (32 - p) = b \<longleftrightarrow> b * 2 ^ (32 - p) \<le> ip \<and> ip < b * 2 ^ (32 - p) + 2 ^ (32 - p)"
  proof
    assume "ip div 2 ^ (32 - p) = b"
    then show "b * 2 ^ (32 - p) \<le> ip \<and> ip < b * 2 ^ (32 - p) + 2 ^ (32 - p)"
      using dividend_less_div_times [of "2 ^ (32 - p)" ip] by auto
  next
    assume "b * 2 ^ (32 - p) \<le> ip \<and> ip < b * 2 ^ (32 - p) + 2 ^ (32 - p)"
    then show "ip div 2 ^ (32 - p) = b"
      by (intro div_nat_eqI) (simp_all add: mult.commute)
  qed
  ultimately show ?thesis using assms(3) by simp
qed

lemma contains_block:
  assumes "ip < 2 ^ 32" "p \<le> 32" "base = b * 2 ^ (32 - p)"
  shows "contains \<lparr>network_address = base, netmask = ip_int_from_prefix p\<rparr> ip
           \<longleftrightarrow> in_block ip base p"
  using contains_iff [OF assms] by (simp add: contains_def in_block_def)

section \<open>Valid addresses are dotted quads\<close>

lemma int_of_str_snoc: "int_of_str (s @ [c]) = 10 * int_of_str s + (c - 48)"
  by (simp add: int_of_str_def)

lemma int_of_str_pos:
  "s \<noteq> [] \<Longrightarrow> list_all is_ascii_digit s \<Longrightarrow> hd s \<noteq> 48 \<Longrightarrow> 0 < int_of_str s"
proof (induction s rule: rev_induct)
  case Nil
  then show ?case by simp
next
  case (snoc c s)
  show ?case
  proof (cases "s = []")
    case True
    with snoc.prems show ?thesis
      by (simp add: int_of_str_def is_ascii_digit_def)
  next
    case False
    with snoc have "0 < int_of_str s" by simp
    then show ?thesis by (simp add: int_of_str_snoc)
  qed
qed

lemma decimal_int_of_str:
  "s \<noteq> [] \<Longrightarrow> list_all is_ascii_digit s \<Longrightarrow> s = [48] \<or> hd s \<noteq> 48
     \<Longrightarrow> decimal (int_of_str s) = s"
proof (induction s rule: rev_induct)
  case Nil
  then show ?case by simp
next
  case (snoc c s)
  define k where "k = c - 48"
  from snoc.prems have c: "48 \<le> c" "c \<le> 57"
    by (simp_all add: is_ascii_digit_def)
  then have k: "k < 10" "48 + k = c"
    by (simp_all add: k_def)
  show ?case
  proof (cases "s = []")
    case True
    with k show ?thesis
      by (simp add: int_of_str_def decimal.simps [of k] flip: k_def)
  next
    case False
    with snoc.prems have hd: "hd s \<noteq> 48" and dig: "list_all is_ascii_digit s" by auto
    from int_of_str_pos [OF False dig hd] have pos: "0 < int_of_str s" .
    from snoc.IH [OF False dig] hd have ih: "decimal (int_of_str s) = s" by simp
    have "int_of_str (s @ [c]) = 10 * int_of_str s + k"
      by (simp add: int_of_str_snoc k_def)
    moreover have "(10 * int_of_str s + k) div 10 = int_of_str s"
      and "(10 * int_of_str s + k) mod 10 = k"
      using k by simp_all
    moreover have "\<not> 10 * int_of_str s + k < 10" using pos by simp
    ultimately show ?thesis
      using ih k by (simp add: decimal.simps [of "10 * int_of_str s + k"])
  qed
qed

lemma parse_octet_decimal:
  assumes "parse_octet s = Inr v"
  shows "v \<le> 255 \<and> int_of_str s = v \<and> decimal v = s"
proof -
  from assms have "s \<noteq> []" "list_all is_ascii_digit s" "s = [48] \<or> hd s \<noteq> 48"
    "v = int_of_str s" "v \<le> 255"
    by (auto simp: parse_octet_def Let_def split: if_splits)
  then show ?thesis using decimal_int_of_str [of s] by blast
qed

lemma str_split_not_Nil: "str_split sep s \<noteq> []"
  by (induction s) (auto split: list.splits)

lemma str_split_join:
  "str_split sep s = p # ps \<Longrightarrow> s = p @ concat (map ((#) sep) ps)"
proof (induction s arbitrary: p ps)
  case Nil
  then show ?case by simp
next
  case (Cons c cs)
  obtain w ws where w: "str_split sep cs = w # ws"
    using str_split_not_Nil [of sep cs] by (cases "str_split sep cs") auto
  from Cons.IH [OF w] have cs: "cs = w @ concat (map ((#) sep) ws)" .
  show ?case
  proof (cases "c = sep")
    case True
    with Cons.prems w have "p = []" "ps = w # ws" by simp_all
    with cs True show ?thesis by simp
  next
    case False
    with Cons.prems w have "p = c # w" "ps = ws" by simp_all
    with cs show ?thesis by simp
  qed
qed

lemma valid_dotted_quad:
  assumes "IPv4Address x = Inr ip"
  shows "\<exists>a b c d. a \<le> 255 \<and> b \<le> 255 \<and> c \<le> 255 \<and> d \<le> 255
           \<and> x = dotted_quad a b c d \<and> ip = ipv4 a b c d"
proof -
  from IPv4Address_Inr [OF assms] obtain o1 o2 o3 o4 a b c d where
    sp: "str_split 46 x = [o1, o2, o3, o4]" and
    po: "parse_octet o1 = Inr a" "parse_octet o2 = Inr b"
        "parse_octet o3 = Inr c" "parse_octet o4 = Inr d" and ip: "ip = ipv4 a b c d"
    by blast
  from str_split_join [OF sp] have "x = o1 @ 46 # o2 @ 46 # o3 @ 46 # o4" by simp
  moreover note parse_octet_decimal [OF po(1)] parse_octet_decimal [OF po(2)]
    parse_octet_decimal [OF po(3)] parse_octet_decimal [OF po(4)]
  ultimately have "a \<le> 255 \<and> b \<le> 255 \<and> c \<le> 255 \<and> d \<le> 255 \<and> x = dotted_quad a b c d"
    unfolding dotted_quad_def by metis
  with ip show ?thesis by blast
qed

lemma octet_too_large_invalid:
  assumes "o' \<in> set (str_split 46 x)" "255 < int_of_str o'"
  shows "IPv4Address x \<noteq> Inr ip"
proof
  assume "IPv4Address x = Inr ip"
  from IPv4Address_Inr [OF this] obtain o1 o2 o3 o4 a b c d where
    sp: "str_split 46 x = [o1, o2, o3, o4]" and
    po: "parse_octet o1 = Inr a" "parse_octet o2 = Inr b"
        "parse_octet o3 = Inr c" "parse_octet o4 = Inr d"
    by blast
  from assms(1) sp have "o' = o1 \<or> o' = o2 \<or> o' = o3 \<or> o' = o4" by simp
  with po obtain v where "parse_octet o' = Inr v" by blast
  from parse_octet_decimal [OF this] have "int_of_str o' \<le> 255" by simp
  with assms(2) show False by simp
qed

lemma is_valid_ip_eq: "is_valid_ip s = Inr (\<not> isl (IPv4Address s))"
  by (auto simp: is_valid_ip_def split: sum.splits dest: IPv4Address_Inl)

lemma keep_valid_eq:
  "keep_valid xs acc = Inr (acc @ filter (\<lambda>x. \<not> isl (IPv4Address x)) xs)"
  by (induction xs arbitrary: acc) (simp_all add: is_valid_ip_eq)

lemma extract_ips_from_line_eq:
  "extract_ips_from_line U line = Inr (filter (\<lambda>x. \<not> isl (IPv4Address x)) (findall U line))"
  by (simp add: extract_ips_from_line_def keep_valid_eq)

section \<open>Evaluation of concrete runs\<close>

lemmas eval_ip = str_of_def IPv4Address_def ip_int_from_string_def parse_octet_def
  is_ascii_digit_def int_of_str_def from_bytes_big_def

lemmas eval_re = findall_def ip_pattern_def List.bind_def
  word_boundary_def word_at_def is_word_char_def octet_dot_def digits_1_3_def dot_def

lemmas eval_classify = is_private_ip_def private_ranges_eq contains_def ipv4_def
  ip_int_from_prefix_def ALL_ONES_def

lemmas eval_store = store_ip_in_mongodb_def update_one_def next_fault_def collection_def
  insert_one_def count_documents_def unique_index_ok_def logger_def

lemmas eval_scan = process_log_file_def scan_file_def process_line_def process_ip_def
  extract_ips_from_line_def is_valid_ip_def is_ValueError_def is_Exception_def
  strip_def is_space_def inc_def Let_def

lemmas eval_main = main_def main_try_def LOG_FILE_PATH_def IPProcessor_init_def
  connect_to_mongodb_def print_statistics_def close_connection_def

lemmas eval_sample = sample_line_def sample_fs_def empty_store_def fresh_world_def
  connected_def ascii_tables_def

lemma sample_scanned:
  "scanned_addresses ascii_tables [sample_line]
     = [str_of ''10.0.0.1'', str_of ''8.8.8.8'', str_of ''10.0.0.1'']"
  by (simp add: scanned_addresses_def addresses_of_line_def eval_scan eval_re eval_ip eval_sample)

lemma sample_run:
  "main ascii_tables None (sample_fs EOF) empty_store
     = (0, \<lparr>db = \<lparr>reachable = True,
                   public_ips = [\<lparr>doc_ip = str_of ''8.8.8.8'', doc_type = ''public'',
                                  first_seen = None\<rparr>],
                   private_ips = [\<lparr>doc_ip = str_of ''10.0.0.1'', doc_type = ''private'',
                                   first_seen = None\<rparr>],
                   faults = []\<rparr>,
             log = [Connecting, Connected, StartProcessing (str_of ''/app/logs/sample.log''),
                    ProcessingCompleted, StatisticsHeader, TotalLinesProcessed 1,
                    TotalIPsFound 3, WithinFileDuplicates 1, UniqueIPsFromFile 0,
                    NewPublicStored 1, NewPrivateStored 1, DatabaseDuplicatesSkipped 0,
                    TotalPublicInDatabase 1, TotalPrivateInDatabase 1,
                    MathCheckProcessed 2, MathCheckShouldEqual 2,
                    CompletedSuccessfully, ConnectionClosed],
             store_calls = [(str_of ''10.0.0.1'', True), (str_of ''8.8.8.8'', False)]\<rparr>)"
  by (simp add: eval_main eval_scan eval_store eval_classify eval_re eval_ip eval_sample)

section \<open>Classification\<close>

text \<open>
  C3: for every valid IPv4 address the classification is a boolean (private or public),
  and it is private exactly when the address lies in 10.0.0.0/8, 172.16.0.0/12 or
  192.168.0.0/16.
\<close>

theorem classification_private_iff:
  assumes "IPv4Address s = Inr ip"
  shows "is_private_ip s =
           Inr (in_block ip (ipv4 10 0 0 0) 8 \<or> in_block ip (ipv4 172 16 0 0) 12
                \<or> in_block ip (ipv4 192 168 0 0) 16)"
proof -
  from IPv4Address_bound [OF assms] have b: "ip < 2 ^ 32" .
  have "contains \<lparr>network_address = ipv4 10 0 0 0, netmask = ip_int_from_prefix 8\<rparr> ip
          \<longleftrightarrow> in_block ip (ipv4 10 0 0 0) 8"
    by (rule contains_block [OF b, where b = 10]) (simp_all add: ipv4_def)
  moreover
  have "contains \<lparr>network_address = ipv4 172 16 0 0, netmask = ip_int_from_prefix 12\<rparr> ip
          \<longleftrightarrow> in_block ip (ipv4 172 16 0 0) 12"
    by (rule contains_block [OF b, where b = 2753]) (simp_all add: ipv4_def)
  moreover
  have "contains \<lparr>network_address = ipv4 192 168 0 0, netmask = ip_int_from_prefix 16\<rparr> ip
          \<longleftrightarrow> in_block ip (ipv4 192 168 0 0) 16"
    by (rule contains_block [OF b, where b = 49320]) (simp_all add: ipv4_def)
  ultimately show ?thesis
    using assms by (simp add: is_private_ip_def private_ranges_eq)
qed

theorem classification_private_iff_witness:
  "IPv4Address (str_of ''172.31.255.255'') = Inr (ipv4 172 31 255 255)
     \<and> is_private_ip (str_of ''172.31.255.255'') = Inr True
     \<and> IPv4Address (str_of ''172.32.0.0'') = Inr (ipv4 172 32 0 0)
     \<and> is_private_ip (str_of ''172.32.0.0'') = Inr False"
proof -
  have 1: "IPv4Address (str_of ''172.31.255.255'') = Inr (ipv4 172 31 255 255)"
    by (simp add: eval_ip ipv4_def)
  have 2: "IPv4Address (str_of ''172.32.0.0'') = Inr (ipv4 172 32 0 0)"
    by (simp add: eval_ip ipv4_def)
  from classification_private_iff [OF 1] classification_private_iff [OF 2] 1 2
  show ?thesis by (simp add: in_block_def ipv4_def)
qed

text \<open>
  C9: \<^verbatim>\<open>is_private_ip\<close> is total over arbitrary strings: it returns a boolean and never
  raises, and it returns \<^verbatim>\<open>False\<close> for every string that is not a valid IPv4 address.
\<close>

theorem is_private_ip_total:
  "(\<exists>b. is_private_ip s = Inr b)
     \<and> ((\<forall>ip. IPv4Address s \<noteq> Inr ip) \<longrightarrow> is_private_ip s = Inr False)"
  by (cases "IPv4Address s") (auto simp: is_private_ip_def dest: IPv4Address_Inl)

theorem is_private_ip_total_witness:
  "(\<forall>ip. IPv4Address (str_of ''10.0.0.256'') \<noteq> Inr ip)
     \<and> is_private_ip (str_of ''10.0.0.256'') = Inr False"
proof -
  have "IPv4Address (str_of ''10.0.0.256'') = Inl AddressValueError"
    by (simp add: eval_ip is_ValueError_def)
  then have h: "\<forall>ip. IPv4Address (str_of ''10.0.0.256'') \<noteq> Inr ip" by simp
  with is_private_ip_total [of "str_of ''10.0.0.256''"] show ?thesis by blast
qed

section \<open>Extraction\<close>

text \<open>
  C4: for every line, extraction returns (it does not raise), every address it returns
  is the dotted-decimal form of four integers in the range 0 to 255, and a string with
  an octet greater than 255 is never among the addresses returned.
\<close>

theorem extracted_addresses_valid:
  "\<exists>ips. extract_ips_from_line U line = Inr ips
     \<and> (\<forall>x \<in> set ips. \<exists>a b c d. a \<le> 255 \<and> b \<le> 255 \<and> c \<le> 255 \<and> d \<le> 255
                           \<and> x = dotted_quad a b c d)
     \<and> (\<forall>x. (\<exists>octet \<in> set (str_split 46 x). 255 < int_of_str octet) \<longrightarrow> x \<notin> set ips)"
proof -
  define ips where "ips = filter (\<lambda>x. \<not> isl (IPv4Address x)) (findall U line)"
  have 1: "extract_ips_from_line U line = Inr ips"
    unfolding ips_def by (rule extract_ips_from_line_eq)
  have 2: "\<exists>a b c d. a \<le> 255 \<and> b \<le> 255 \<and> c \<le> 255 \<and> d \<le> 255 \<and> x = dotted_quad a b c d"
    if "x \<in> set ips" for x
  proof -
    from that obtain ip where "IPv4Address x = Inr ip"
      unfolding ips_def by (cases "IPv4Address x") auto
    from valid_dotted_quad [OF this] show ?thesis by blast
  qed
  have 3: "x \<notin> set ips"
    if "\<exists>octet \<in> set (str_split 46 x). 255 < int_of_str octet" for x
  proof -
    from that obtain octet where "octet \<in> set (str_split 46 x)" "255 < int_of_str octet"
      by blast
    from octet_too_large_invalid [OF this] have "isl (IPv4Address x)"
      by (cases "IPv4Address x") auto
    then show ?thesis by (simp add: ips_def)
  qed
  from 1 2 3 show ?thesis by blast
qed

theorem extracted_addresses_valid_witness:
  "extract_ips_from_line ascii_tables (str_of ''999.1.1.1 1.2.3.4'') = Inr [str_of ''1.2.3.4'']
     \<and> (\<exists>a b c d. a \<le> 255 \<and> b \<le> 255 \<and> c \<le> 255 \<and> d \<le> 255
                    \<and> str_of ''1.2.3.4'' = dotted_quad a b c d)
     \<and> (\<exists>octet \<in> set (str_split 46 (str_of ''999.1.1.1'')). 255 < int_of_str octet)
     \<and> str_of ''999.1.1.1'' \<in> set (findall ascii_tables (str_of ''999.1.1.1 1.2.3.4''))
     \<and> str_of ''999.1.1.1'' \<notin> set [str_of ''1.2.3.4'']"
proof -
  have f: "findall ascii_tables (str_of ''999.1.1.1 1.2.3.4'')
             = [str_of ''999.1.1.1'', str_of ''1.2.3.4'']"
    by (simp add: eval_re eval_ip)
  have e: "extract_ips_from_line ascii_tables (str_of ''999.1.1.1 1.2.3.4'')
             = Inr [str_of ''1.2.3.4'']"
    unfolding extract_ips_from_line_def f
    by (simp add: is_valid_ip_def eval_ip is_ValueError_def)
  have o: "\<exists>octet \<in> set (str_split 46 (str_of ''999.1.1.1'')). 255 < int_of_str octet"
    by (simp add: eval_ip)
  from extracted_addresses_valid [of ascii_tables "str_of ''999.1.1.1 1.2.3.4''"] e
  have "(\<forall>x \<in> set [str_of ''1.2.3.4'']. \<exists>a b c d. a \<le> 255 \<and> b \<le> 255 \<and> c \<le> 255 \<and> d \<le> 255
                           \<and> x = dotted_quad a b c d)
     \<and> (\<forall>x. (\<exists>octet \<in> set (str_split 46 x). 255 < int_of_str octet)
            \<longrightarrow> x \<notin> set [str_of ''1.2.3.4''])"
    by auto
  with e f o show ?thesis by simp
qed

section \<open>The scan loop\<close>

text \<open>No exception leaves the body of the inner loop, and the loop bodies keep the
  cross-check.\<close>

lemma is_private_ip_eq:
  "is_private_ip s = Inr (case IPv4Address s of
       Inr ip \<Rightarrow> list_ex (\<lambda>network. contains network ip) private_ranges | Inl e \<Rightarrow> False)"
  by (auto simp: is_private_ip_def split: sum.splits dest: IPv4Address_Inl)

lemma is_private_ip_cases:
  obtains b where "is_private_ip s = Inr b"
  using is_private_ip_eq by blast

lemma process_ip_None: "fst (process_ip ip S) = None"
  by (rule is_private_ip_cases [of ip])
     (simp add: process_ip_def Let_def split: prod.splits)

lemma process_ip_cross_check:
  assumes "cross_check (stats (self S))"
  shows "cross_check (stats (self (snd (process_ip ip S))))"
  using assms
  by (rule_tac is_private_ip_cases [of ip])
     (auto simp: process_ip_def Let_def inc_def cross_check_def split: prod.splits)

lemma process_ips_None: "fst (process_ips ips S) = None"
proof (induction ips arbitrary: S)
  case Nil
  show ?case by simp
next
  case (Cons ip ips)
  from process_ip_None [of ip S] obtain S' where "process_ip ip S = (None, S')"
    by (cases "process_ip ip S") auto
  with Cons show ?case by simp
qed

lemma process_ips_cross_check:
  "cross_check (stats (self S)) \<Longrightarrow> cross_check (stats (self (snd (process_ips ips S))))"
proof (induction ips arbitrary: S)
  case Nil
  then show ?case by simp
next
  case (Cons ip ips)
  from process_ip_None [of ip S] obtain S' where s: "process_ip ip S = (None, S')"
    by (cases "process_ip ip S") auto
  with process_ip_cross_check [OF Cons.prems, of ip] have "cross_check (stats (self S'))"
    by simp
  from Cons.IH [OF this] s show ?case by simp
qed

lemma process_line_eq:
  "process_line U n line S =
     (None, let S' = snd (process_ips (addresses_of_line U line)
                           (S\<lparr>self := inc total_lines_processed (self S)\<rparr>))
            in if n mod 1000 = 0
               then S'\<lparr>world := logger (world S') (ProcessedLines n)\<rparr> else S')"
proof -
  obtain ips where e: "extract_ips_from_line U (strip U line) = Inr ips"
    by (simp add: extract_ips_from_line_eq)
  obtain S' where p: "process_ips ips (S\<lparr>self := inc total_lines_processed (self S)\<rparr>) = (None, S')"
    using process_ips_None [of ips "S\<lparr>self := inc total_lines_processed (self S)\<rparr>"]
    by (cases "process_ips ips (S\<lparr>self := inc total_lines_processed (self S)\<rparr>)") auto
  from e p show ?thesis
    by (simp add: process_line_def addresses_of_line_def Let_def)
qed

lemma process_line_cross_check:
  assumes "cross_check (stats (self S))"
  shows "cross_check (stats (self (snd (process_line U n line S))))"
proof -
  from assms have "cross_check (stats (self (S\<lparr>self := inc total_lines_processed (self S)\<rparr>)))"
    by (simp add: cross_check_def inc_def)
  from process_ips_cross_check [OF this, of "addresses_of_line U line"]
  show ?thesis by (simp add: process_line_eq Let_def)
qed

lemma process_lines_EOF_None: "fst (process_lines U n lines EOF S) = None"
  by (induction lines arbitrary: n S) (simp_all add: process_line_eq)

lemma process_lines_cross_check:
  "cross_check (stats (self S))
     \<Longrightarrow> cross_check (stats (self (snd (process_lines U n lines e S))))"
proof (induction lines arbitrary: n S)
  case Nil
  then show ?case by (cases e) simp_all
next
  case (Cons line lines)
  from process_line_cross_check [OF Cons.prems, of U n line]
  have "cross_check (stats (self (snd (process_line U n line S))))" .
  from Cons.IH [OF this] show ?case
    by (simp add: process_line_eq)
qed

text \<open>
  C1: after a complete scan (every line processed, the file read to its end) the counters
  satisfy \<open>unique_public_ips_stored + unique_private_ips_stored + duplicate_ips_skipped
  = total_ips_found - within_file_duplicates\<close>.  The scan starts from counters that
  satisfy the equation, as the zero counters of a new processor do; the store may fail
  at any call.
\<close>

theorem cross_check_after_complete_scan:
  assumes "fs path = File lines EOF" and "cross_check (stats P)"
  shows "\<exists>P' W'. process_log_file U fs path P W = (Inr True, P', W') \<and> cross_check (stats P')"
proof -
  define S0 where "S0 = \<lparr>self = P, processed_ips = {}, world = logger W (StartProcessing path)\<rparr>"
  obtain S where s: "process_lines U 1 lines EOF S0 = (None, S)"
    using process_lines_EOF_None [of U 1 lines S0]
    by (cases "process_lines U 1 lines EOF S0") auto
  from assms(2) have "cross_check (stats (self S0))" by (simp add: S0_def)
  from process_lines_cross_check [OF this, of U 1 lines EOF] s
  have "cross_check (stats (self S))" by simp
  with s assms(1) show ?thesis
    by (simp add: process_log_file_def scan_file_def S0_def)
qed

theorem cross_check_after_complete_scan_witness:
  "sample_fs EOF [] = File [sample_line] EOF
     \<and> cross_check (stats connected)
     \<and> (\<exists>P' W'. process_log_file ascii_tables (sample_fs EOF) [] connected
                    (fresh_world (empty_store\<lparr>faults := [True]\<rparr>)) = (Inr True, P', W')
                 \<and> cross_check (stats P'))"
proof -
  have h1: "sample_fs EOF [] = File [sample_line] EOF" by (simp add: sample_fs_def)
  have h2: "cross_check (stats connected)"
    by (simp add: cross_check_def connected_def IPProcessor_init_def)
  from cross_check_after_complete_scan
         [where fs = "sample_fs EOF" and path = "[]" and lines = "[sample_line]", OF h1 h2]
       h1 h2
  show ?thesis by blast
qed

section \<open>Deduplication within a file\<close>

lemma store_calls_logger [simp]: "store_calls (logger W m) = store_calls W"
  by (simp add: logger_def)

lemma store_ip_in_mongodb_calls:
  "store_calls (snd (store_ip_in_mongodb P ip b W)) = store_calls W @ [(ip, b)]"
  by (simp add: store_ip_in_mongodb_def Let_def split: prod.splits sum.splits)

lemma process_ip_effect:
  "processed_ips (snd (process_ip ip S)) = insert ip (processed_ips S)
   \<and> store_calls (world (snd (process_ip ip S)))
       = store_calls (world S)
           @ (if ip \<in> processed_ips S then [] else [(ip, is_private_ip ip = Inr True)])
   \<and> stats (self (snd (process_ip ip S))) within_file_duplicates
       = stats (self S) within_file_duplicates + (if ip \<in> processed_ips S then 1 else 0)"
proof -
  obtain b where b: "is_private_ip ip = Inr b" by (rule is_private_ip_cases)
  obtain r W' where st: "store_ip_in_mongodb (inc total_ips_found (self S)) ip b (world S) = (r, W')"
    by (cases "store_ip_in_mongodb (inc total_ips_found (self S)) ip b (world S)") auto
  from store_ip_in_mongodb_calls [of "inc total_ips_found (self S)" ip b "world S"] st
  have "store_calls W' = store_calls (world S) @ [(ip, b)]" by simp
  with b st show ?thesis
    by (auto simp: process_ip_def Let_def inc_def)
qed

lemma process_ips_effect:
  "processed_ips (snd (process_ips ips S)) = processed_ips S \<union> set ips
   \<and> store_calls (world (snd (process_ips ips S)))
       = store_calls (world S)
           @ map (\<lambda>a. (a, is_private_ip a = Inr True)) (new_addresses (processed_ips S) ips)
   \<and> stats (self (snd (process_ips ips S))) within_file_duplicates
       = stats (self S) within_file_duplicates
           + int (length ips) - int (length (new_addresses (processed_ips S) ips))"
proof (induction ips arbitrary: S)
  case Nil
  show ?case by simp
next
  case (Cons ip ips)
  obtain S' where s: "process_ip ip S = (None, S')"
    using process_ip_None [of ip S] by (cases "process_ip ip S") auto
  from process_ip_effect [of ip S] s
  have 1: "processed_ips S' = insert ip (processed_ips S)"
    and 2: "store_calls (world S')
              = store_calls (world S)
                  @ (if ip \<in> processed_ips S then [] else [(ip, is_private_ip ip = Inr True)])"
    and 3: "stats (self S') within_file_duplicates
              = stats (self S) within_file_duplicates + (if ip \<in> processed_ips S then 1 else 0)"
    by simp_all
  have ins: "insert ip (processed_ips S) = processed_ips S" if "ip \<in> processed_ips S"
    using that by auto
  from Cons.IH [of S'] s 1 2 3 show ?case
    by (auto simp: ins)
qed

lemma new_addresses_append:
  "new_addresses seen (xs @ ys) = new_addresses seen xs @ new_addresses (seen \<union> set xs) ys"
  by (induction xs arbitrary: seen) (auto simp: insert_absorb)

lemma process_line_effect:
  "processed_ips (snd (process_line U n line S)) = processed_ips S \<union> set (addresses_of_line U line)
   \<and> store_calls (world (snd (process_line U n line S)))
       = store_calls (world S)
           @ map (\<lambda>a. (a, is_private_ip a = Inr True)) (new_addresses (processed_ips S) (addresses_of_line U line))
   \<and> stats (self (snd (process_line U n line S))) within_file_duplicates
       = stats (self S) within_file_duplicates
           + int (length (addresses_of_line U line))
           - int (length (new_addresses (processed_ips S) (addresses_of_line U line)))"
  using process_ips_effect [of "addresses_of_line U line"
      "S\<lparr>self := inc total_lines_processed (self S)\<rparr>"]
  by (simp add: process_line_eq Let_def inc_def)

lemma process_lines_effect:
  "store_calls (world (snd (process_lines U n lines e S)))
       = store_calls (world S)
           @ map (\<lambda>a. (a, is_private_ip a = Inr True)) (new_addresses (processed_ips S) (scanned_addresses U lines))
   \<and> stats (self (snd (process_lines U n lines e S))) within_file_duplicates
       = stats (self S) within_file_duplicates
           + int (length (scanned_addresses U lines))
           - int (length (new_addresses (processed_ips S) (scanned_addresses U lines)))"
proof (induction lines arbitrary: n S)
  case Nil
  show ?case by (cases e) (simp_all add: scanned_addresses_def)
next
  case (Cons line lines)
  have sc: "scanned_addresses U (line # lines) = addresses_of_line U line @ scanned_addresses U lines"
    by (simp add: scanned_addresses_def)
  from Cons.IH [of "Suc n" "snd (process_line U n line S)"] process_line_effect [of U n line S]
  show ?case
    by (simp add: process_line_eq [of U n line S] sc new_addresses_append
        del: process_line_eq) 
qed

lemma count_new_addresses:
  "count_list (new_addresses seen xs) a = (if a \<in> set xs - seen then 1 else 0)"
  by (induction xs arbitrary: seen) auto

lemma length_new_addresses: "length (new_addresses seen xs) = card (set xs - seen)"
proof (induction xs arbitrary: seen)
  case Nil
  show ?case by simp
next
  case (Cons x xs)
  show ?case
  proof (cases "x \<in> seen")
    case True
    then have "set (x # xs) - seen = set xs - seen" by auto
    with True Cons show ?thesis by simp
  next
    case False
    then have "set (x # xs) - seen = insert x (set xs - insert x seen)" by auto
    moreover have "x \<notin> set xs - insert x seen" by simp
    ultimately have "card (set (x # xs) - seen) = Suc (card (set xs - insert x seen))"
      by simp
    with False Cons show ?thesis by simp
  qed
qed

lemma duplicates_sum:
  "int (length xs) - int (card (set xs)) = (\<Sum>a\<in>set xs. int (count_list xs a) - 1)"
proof -
  have "(\<Sum>a\<in>set xs. int (count_list xs a) - 1)
          = (\<Sum>a\<in>set xs. int (count_list xs a)) - (\<Sum>a\<in>set xs. 1)"
    by (simp add: sum_subtractf)
  also have "(\<Sum>a\<in>set xs. int (count_list xs a)) = int (\<Sum>a\<in>set xs. count_list xs a)"
    by simp
  also have "(\<Sum>a\<in>set xs. count_list xs a) = length xs"
    by (rule sum_count_set) simp_all
  finally show ?thesis by simp
qed

text \<open>
  C5: in one scan of a file, whatever ends it, exactly one store call is made for every
  address that occurs among the valid extracted addresses, however often it occurs, and
  none for any other string; \<open>within_file_duplicates\<close> grows by the sum, over the
  addresses, of the number of occurrences less one.  So an address that occurs \<open>N > 1\<close>
  times accounts for one store call and for \<open>N - 1\<close> increments, and its later
  occurrences do not reach the store.
\<close>

theorem within_file_dedup:
  assumes "fs path = File lines e"
  shows "\<exists>r P' W' calls. process_log_file U fs path P W = (r, P', W')
           \<and> store_calls W' = store_calls W @ calls
           \<and> (\<forall>a. count_list (map fst calls) a
                     = (if a \<in> set (scanned_addresses U lines) then 1 else 0))
           \<and> stats P' within_file_duplicates
               = stats P within_file_duplicates
                   + (\<Sum>a\<in>set (scanned_addresses U lines).
                        int (count_list (scanned_addresses U lines) a) - 1)"
proof -
  define S0 where "S0 = \<lparr>self = P, processed_ips = {}, world = logger W (StartProcessing path)\<rparr>"
  define ips where "ips = scanned_addresses U lines"
  obtain x S where s: "process_lines U 1 lines e S0 = (x, S)"
    by (cases "process_lines U 1 lines e S0") auto
  obtain r P' W' where r: "process_log_file U fs path P W = (r, P', W')"
    by (cases "process_log_file U fs path P W") auto
  from s r assms have P': "P' = self S" and W': "store_calls W' = store_calls (world S)"
    by (auto simp: process_log_file_def scan_file_def S0_def split: option.splits if_splits)
  define calls where "calls = map (\<lambda>a. (a, is_private_ip a = Inr True)) (new_addresses {} ips)"
  from process_lines_effect [of U 1 lines e S0] s
  have c1: "store_calls (world S) = store_calls W @ calls"
    and w: "stats (self S) within_file_duplicates
              = stats P within_file_duplicates + int (length ips) - int (length (new_addresses {} ips))"
    by (simp_all add: S0_def ips_def calls_def)
  have c2: "map fst calls = new_addresses {} ips"
    by (simp add: calls_def comp_def)
  have "stats (self S) within_file_duplicates
          = stats P within_file_duplicates + (\<Sum>a\<in>set ips. int (count_list ips a) - 1)"
    using w duplicates_sum [of ips] by (simp add: length_new_addresses)
  with r P' W' c1 c2 show ?thesis
    unfolding ips_def [symmetric]
    by (intro exI [of _ r] exI [of _ P'] exI [of _ W'] exI [of _ calls])
       (simp add: count_new_addresses)
qed

theorem within_file_dedup_witness:
  "sample_fs EOF [] = File [sample_line] EOF
     \<and> count_list (scanned_addresses ascii_tables [sample_line]) (str_of ''10.0.0.1'') = 2
     \<and> (\<exists>r P' W' calls.
           process_log_file ascii_tables (sample_fs EOF) [] connected (fresh_world empty_store)
             = (r, P', W')
           \<and> store_calls W' = calls
           \<and> count_list (map fst calls) (str_of ''10.0.0.1'') = 1
           \<and> count_list (map fst calls) (str_of ''8.8.8.8'') = 1
           \<and> stats P' within_file_duplicates = 1)"
proof -
  have h: "sample_fs EOF [] = File [sample_line] EOF" by (simp add: sample_fs_def)
  have n: "count_list (scanned_addresses ascii_tables [sample_line]) (str_of ''10.0.0.1'') = 2"
    by (simp add: sample_scanned str_of_def)
  have s: "(\<Sum>a\<in>set (scanned_addresses ascii_tables [sample_line]).
              int (count_list (scanned_addresses ascii_tables [sample_line]) a) - 1) = 1"
    unfolding duplicates_sum [symmetric] by (simp add: sample_scanned str_of_def card_insert_if)
  from within_file_dedup
         [where fs = "sample_fs EOF" and path = "[]" and lines = "[sample_line]", OF h,
          of ascii_tables connected "fresh_world empty_store"]
  obtain r P' W' calls where
    "process_log_file ascii_tables (sample_fs EOF) [] connected (fresh_world empty_store)
       = (r, P', W')"
    "store_calls W' = store_calls (fresh_world empty_store) @ calls"
    "\<forall>a. count_list (map fst calls) a
           = (if a \<in> set (scanned_addresses ascii_tables [sample_line]) then 1 else 0)"
    "stats P' within_file_duplicates
       = stats connected within_file_duplicates
           + (\<Sum>a\<in>set (scanned_addresses ascii_tables [sample_line]).
                int (count_list (scanned_addresses ascii_tables [sample_line]) a) - 1)"
    by blast
  with s have "process_log_file ascii_tables (sample_fs EOF) [] connected (fresh_world empty_store)
       = (r, P', W')
     \<and> store_calls W' = calls
     \<and> count_list (map fst calls) (str_of ''10.0.0.1'') = 1
     \<and> count_list (map fst calls) (str_of ''8.8.8.8'') = 1
     \<and> stats P' within_file_duplicates = 1"
    by (simp add: sample_scanned fresh_world_def connected_def IPProcessor_init_def)
  with h n show ?thesis by blast
qed

section \<open>What a run returns and reports\<close>

lemma stat_log_logger:
  "stat_log (logger W m) = stat_log W @ (if statistics_msg m then [m] else [])"
  by (simp add: stat_log_def logger_def)

lemma stat_log_db [simp]: "stat_log (W\<lparr>db := d\<rparr>) = stat_log W"
  by (simp add: stat_log_def)

lemma stat_log_store_calls [simp]: "stat_log (W\<lparr>store_calls := c\<rparr>) = stat_log W"
  by (simp add: stat_log_def)

lemma store_ip_in_mongodb_stat_log:
  "stat_log (snd (store_ip_in_mongodb P ip b W)) = stat_log W"
  by (simp add: store_ip_in_mongodb_def Let_def stat_log_logger split: prod.splits sum.splits)

lemma attr_inc [simp]: "processed_ips_attr (inc k P) = processed_ips_attr P"
  by (simp add: inc_def)

lemma process_ip_frame:
  "stat_log (world (snd (process_ip ip S))) = stat_log (world S)
   \<and> processed_ips_attr (self (snd (process_ip ip S))) = processed_ips_attr (self S)"
proof -
  obtain b where b: "is_private_ip ip = Inr b" by (rule is_private_ip_cases)
  obtain r W' where st: "store_ip_in_mongodb (inc total_ips_found (self S)) ip b (world S) = (r, W')"
    by (cases "store_ip_in_mongodb (inc total_ips_found (self S)) ip b (world S)") auto
  from store_ip_in_mongodb_stat_log [of "inc total_ips_found (self S)" ip b "world S"] st
  have "stat_log W' = stat_log (world S)" by simp
  with b st show ?thesis
    by (simp add: process_ip_def Let_def)
qed

lemma process_ips_frame:
  "stat_log (world (snd (process_ips ips S))) = stat_log (world S)
   \<and> processed_ips_attr (self (snd (process_ips ips S))) = processed_ips_attr (self S)"
proof (induction ips arbitrary: S)
  case Nil
  show ?case by simp
next
  case (Cons ip ips)
  obtain S' where s: "process_ip ip S = (None, S')"
    using process_ip_None [of ip S] by (cases "process_ip ip S") auto
  from Cons.IH [of S'] process_ip_frame [of ip S] s show ?case by simp
qed

lemma process_line_frame:
  "stat_log (world (snd (process_line U n line S))) = stat_log (world S)
   \<and> processed_ips_attr (self (snd (process_line U n line S))) = processed_ips_attr (self S)"
  using process_ips_frame [of "addresses_of_line U line"
      "S\<lparr>self := inc total_lines_processed (self S)\<rparr>"]
  by (simp add: process_line_eq Let_def stat_log_logger)

lemma process_lines_frame:
  "stat_log (world (snd (process_lines U n lines e S))) = stat_log (world S)
   \<and> processed_ips_attr (self (snd (process_lines U n lines e S))) = processed_ips_attr (self S)"
proof (induction lines arbitrary: n S)
  case Nil
  show ?case by (cases e) simp_all
next
  case (Cons line lines)
  from Cons.IH [of "Suc n" "snd (process_line U n line S)"] process_line_frame [of U n line S]
  show ?case by (simp add: process_line_eq [of U n line S])
qed

lemma process_lines_result:
  "fst (process_lines U n lines e S)
     = (case e of EOF \<Rightarrow> None | ReadError \<Rightarrow> Some OSError | Interrupt \<Rightarrow> Some KeyboardInterrupt)"
  by (induction lines arbitrary: n S) (simp_all add: process_line_eq split: ending.splits)

lemma scan_file_frame:
  "stat_log (world (snd (scan_file U f S))) = stat_log (world S)
   \<and> processed_ips_attr (self (snd (scan_file U f S))) = processed_ips_attr (self S)"
  using process_lines_frame by (cases f) (simp_all add: scan_file_def)

lemma scan_file_result:
  "fst (scan_file U f S)
     = (case f of File lines EOF \<Rightarrow> None
               | File lines Interrupt \<Rightarrow> Some KeyboardInterrupt
               | _ \<Rightarrow> Some OSError)"
  by (cases f) (simp_all add: scan_file_def process_lines_result split: ending.splits)

text \<open>What \<open>process_log_file\<close> returns, and what it leaves alone.\<close>

lemma process_log_file_result:
  "fst (process_log_file U fs path P W)
     = (case fs path of File lines EOF \<Rightarrow> Inr True
                     | File lines Interrupt \<Rightarrow> Inl KeyboardInterrupt
                     | _ \<Rightarrow> Inr False)"
proof (cases "fs path = Missing")
  case True
  then show ?thesis by (simp add: process_log_file_def)
next
  case False
  define S0 where "S0 = \<lparr>self = P, processed_ips = {}, world = logger W (StartProcessing path)\<rparr>"
  obtain x S where s: "scan_file U (fs path) S0 = (x, S)"
    by (cases "scan_file U (fs path) S0") auto
  with scan_file_result [of U "fs path" S0] False show ?thesis
    by (auto simp: process_log_file_def S0_def is_Exception_def
        split: log_file.splits ending.splits)
qed

lemma process_log_file_frame:
  "stat_log (snd (snd (process_log_file U fs path P W))) = stat_log W
   \<and> processed_ips_attr (fst (snd (process_log_file U fs path P W))) = processed_ips_attr P"
proof (cases "fs path = Missing")
  case True
  then show ?thesis by (simp add: process_log_file_def stat_log_logger)
next
  case False
  define S0 where "S0 = \<lparr>self = P, processed_ips = {}, world = logger W (StartProcessing path)\<rparr>"
  obtain x S where s: "scan_file U (fs path) S0 = (x, S)"
    by (cases "scan_file U (fs path) S0") auto
  with scan_file_frame [of U "fs path" S0] False show ?thesis
    by (auto simp: process_log_file_def S0_def stat_log_logger split: option.splits)
qed

lemma connect_to_mongodb_result:
  "fst (connect_to_mongodb P W) \<longleftrightarrow> reachable (db W) \<and> unique_index_ok (db W)"
  by (simp add: connect_to_mongodb_def Let_def logger_def)

lemma connect_to_mongodb_frame:
  "stat_log (snd (snd (connect_to_mongodb P W))) = stat_log W
   \<and> processed_ips_attr (fst (snd (connect_to_mongodb P W))) = processed_ips_attr P"
  by (simp add: connect_to_mongodb_def Let_def stat_log_logger)

lemma stat_log_close_connection: "stat_log (close_connection P W) = stat_log W"
  by (simp add: close_connection_def stat_log_logger)

lemma main_try_result:
  "fst (main_try U fs path P W)
     = (if \<not> (reachable (db W) \<and> unique_index_ok (db W)) then SystemExit 1
        else (case fs path of File lines EOF \<Rightarrow> Returned
                           | File lines Interrupt \<Rightarrow> Raised KeyboardInterrupt
                           | _ \<Rightarrow> SystemExit 1))"
proof -
  obtain ok P1 W1 where c: "connect_to_mongodb P W = (ok, P1, W1)"
    by (cases "connect_to_mongodb P W") auto
  obtain r P2 W2 where p: "process_log_file U fs path P1 W1 = (r, P2, W2)"
    by (cases "process_log_file U fs path P1 W1") auto
  from connect_to_mongodb_result [of P W] c
  have ok: "ok \<longleftrightarrow> reachable (db W) \<and> unique_index_ok (db W)" by simp
  from process_log_file_result [of U fs path P1 W1] p
  have r: "r = (case fs path of File lines EOF \<Rightarrow> Inr True
                     | File lines Interrupt \<Rightarrow> Inl KeyboardInterrupt
                     | _ \<Rightarrow> Inr False)" by simp
  from ok r show ?thesis
    by (auto simp: main_try_def c p split: log_file.splits ending.splits)
qed

lemma main_exit:
  "fst (main U env fs d)
     = (if \<not> (reachable d \<and> unique_index_ok d) then 1
        else (case fs (LOG_FILE_PATH env) of File lines EOF \<Rightarrow> 0
                           | File lines Interrupt \<Rightarrow> 0
                           | _ \<Rightarrow> 1))"
proof -
  define W0 where "W0 = \<lparr>db = d, log = [], store_calls = []\<rparr>"
  obtain out P W where m: "main_try U fs (LOG_FILE_PATH env) IPProcessor_init W0 = (out, P, W)"
    by (cases "main_try U fs (LOG_FILE_PATH env) IPProcessor_init W0") auto
  from main_try_result [of U fs "LOG_FILE_PATH env" IPProcessor_init W0] m
  have "out = (if \<not> (reachable d \<and> unique_index_ok d) then SystemExit 1
        else (case fs (LOG_FILE_PATH env) of File lines EOF \<Rightarrow> Returned
                           | File lines Interrupt \<Rightarrow> Raised KeyboardInterrupt
                           | _ \<Rightarrow> SystemExit 1))"
    by (simp add: W0_def)
  with m show ?thesis
    by (auto simp: main_def Let_def simp flip: W0_def split: log_file.splits ending.splits)
qed

text \<open>
  C8: the exit status is 0 after a fully successful scan (the store answers, its unique
  indexes can be made, the file is read to its end), and it is not 0 when the store is
  unreachable at the start, when the log file is missing or cannot be opened, and when
  reading fails during the scan.
\<close>

theorem exit_codes:
  "(reachable d \<and> unique_index_ok d \<and> fs (LOG_FILE_PATH env) = File lines EOF
      \<longrightarrow> fst (main U env fs d) = 0)
   \<and> (\<not> reachable d \<longrightarrow> fst (main U env fs d) \<noteq> 0)
   \<and> (fs (LOG_FILE_PATH env) = Missing \<or> fs (LOG_FILE_PATH env) = Unopenable
      \<longrightarrow> fst (main U env fs d) \<noteq> 0)
   \<and> (fs (LOG_FILE_PATH env) = File lines ReadError \<longrightarrow> fst (main U env fs d) \<noteq> 0)"
  by (auto simp: main_exit)

theorem exit_codes_witness:
  "reachable empty_store \<and> unique_index_ok empty_store
     \<and> sample_fs EOF (LOG_FILE_PATH None) = File [sample_line] EOF
     \<and> fst (main ascii_tables None (sample_fs EOF) empty_store) = 0
     \<and> \<not> reachable (empty_store\<lparr>reachable := False\<rparr>)
     \<and> fst (main ascii_tables None (sample_fs EOF) (empty_store\<lparr>reachable := False\<rparr>)) \<noteq> 0
     \<and> fst (main ascii_tables None (\<lambda>path. Missing) empty_store) \<noteq> 0
     \<and> fst (main ascii_tables None (\<lambda>path. Unopenable) empty_store) \<noteq> 0
     \<and> sample_fs ReadError (LOG_FILE_PATH None) = File [sample_line] ReadError
     \<and> fst (main ascii_tables None (sample_fs ReadError) empty_store) \<noteq> 0"
  using exit_codes [of empty_store "sample_fs EOF" None "[sample_line]" ascii_tables]
    exit_codes [of "empty_store\<lparr>reachable := False\<rparr>" "sample_fs EOF" None "[sample_line]" ascii_tables]
    exit_codes [of empty_store "\<lambda>path. Missing" None "[sample_line]" ascii_tables]
    exit_codes [of empty_store "\<lambda>path. Unopenable" None "[sample_line]" ascii_tables]
    exit_codes [of empty_store "sample_fs ReadError" None "[sample_line]" ascii_tables]
  by (simp add: empty_store_def sample_fs_def unique_index_ok_def)

lemma stat_log_mem: "statistics_msg m \<Longrightarrow> m \<in> set (log W) \<longleftrightarrow> m \<in> set (stat_log W)"
  by (simp add: stat_log_def)

lemma statistics_reported_stat_log: "statistics_reported W \<longleftrightarrow> stat_log W \<noteq> []"
  by (simp add: statistics_reported_def stat_log_def list_ex_iff filter_empty_conv)

lemma print_statistics_unique:
  assumes "UniqueIPsFromFile n \<in> set (log (print_statistics P W))"
  shows "UniqueIPsFromFile n \<in> set (log W)
           \<or> n = (case processed_ips_attr P of None \<Rightarrow> 0 | Some ips \<Rightarrow> int (card ips))"
  using assms
  by (auto simp: print_statistics_def Let_def logger_def count_documents_def
      split: if_splits prod.splits sum.splits)

lemma main_try_stat_log:
  assumes "main_try U fs path P W = (out, P', W')"
  shows "(out \<noteq> Returned \<longrightarrow> stat_log W' = stat_log W)
       \<and> (UniqueIPsFromFile n \<in> set (log W') \<longrightarrow> UniqueIPsFromFile n \<in> set (log W)
             \<or> n = (case processed_ips_attr P of None \<Rightarrow> 0 | Some ips \<Rightarrow> int (card ips)))"
proof -
  obtain ok P1 W1 where c: "connect_to_mongodb P W = (ok, P1, W1)"
    by (cases "connect_to_mongodb P W") auto
  obtain r P2 W2 where p: "process_log_file U fs path P1 W1 = (r, P2, W2)"
    by (cases "process_log_file U fs path P1 W1") auto
  from connect_to_mongodb_frame [of P W] c
  have 1: "stat_log W1 = stat_log W" "processed_ips_attr P1 = processed_ips_attr P" by simp_all
  from process_log_file_frame [of U fs path P1 W1] p 1
  have 2: "stat_log W2 = stat_log W" "processed_ips_attr P2 = processed_ips_attr P" by simp_all
  have u: "UniqueIPsFromFile n \<in> set (log V) \<longleftrightarrow> UniqueIPsFromFile n \<in> set (stat_log V)" for V
    by (rule stat_log_mem) simp
  show ?thesis
  proof (cases "ok \<and> r = Inr True")
    case True
    with assms c p have "out = Returned"
      and W': "W' = logger (print_statistics P2 W2) CompletedSuccessfully"
      by (auto simp: main_try_def)
    from W' have "UniqueIPsFromFile n \<in> set (log W')
                    \<longleftrightarrow> UniqueIPsFromFile n \<in> set (log (print_statistics P2 W2))"
      by (simp add: logger_def)
    with print_statistics_unique [of n P2 W2] 2 u [of W2] u [of W] \<open>out = Returned\<close>
    show ?thesis by auto
  next
    case False
    with assms c p have "out \<noteq> Returned" and "stat_log W' = stat_log W2 \<or> stat_log W' = stat_log W1"
      by (auto simp: main_try_def stat_log_logger split: if_splits sum.splits)
    with 1 2 u [of W'] u [of W] show ?thesis by auto
  qed
qed

lemma main_stat_log:
  assumes "main_try U fs (LOG_FILE_PATH env) IPProcessor_init \<lparr>db = d, log = [], store_calls = []\<rparr>
             = (out, P, W)"
  shows "stat_log (snd (main U env fs d)) = stat_log W"
  using assms
  by (auto simp: main_def Let_def stat_log_close_connection stat_log_logger
      split: outcome.splits)

text \<open>
  C10: the statistic "Unique IPs from file" that a run reports is always 0, for every
  file and every store: the processor never has the attribute \<^verbatim>\<open>processed_ips\<close> that
  \<^verbatim>\<open>print_statistics\<close> reads.
\<close>

theorem unique_ips_from_file_always_zero:
  assumes "UniqueIPsFromFile n \<in> set (log (snd (main U env fs d)))"
  shows "n = 0"
proof -
  define W0 where "W0 = \<lparr>db = d, log = [], store_calls = []\<rparr>"
  obtain out P W where m: "main_try U fs (LOG_FILE_PATH env) IPProcessor_init W0 = (out, P, W)"
    by (cases "main_try U fs (LOG_FILE_PATH env) IPProcessor_init W0") auto
  have u: "UniqueIPsFromFile n \<in> set (log V) \<longleftrightarrow> UniqueIPsFromFile n \<in> set (stat_log V)" for V
    by (rule stat_log_mem) simp
  from assms main_stat_log [OF m [unfolded W0_def]] have "UniqueIPsFromFile n \<in> set (log W)"
    by (simp add: u)
  with main_try_stat_log [OF m, of n] show ?thesis
    by (simp add: W0_def IPProcessor_init_def)
qed

theorem unique_ips_from_file_always_zero_witness:
  "UniqueIPsFromFile 0 \<in> set (log (snd (main ascii_tables None (sample_fs EOF) empty_store)))
     \<and> length (store_calls (snd (main ascii_tables None (sample_fs EOF) empty_store))) = 2
     \<and> UniqueIPsFromFile 2 \<notin> set (log (snd (main ascii_tables None (sample_fs EOF) empty_store)))"
proof -
  have 1: "UniqueIPsFromFile 0
             \<in> set (log (snd (main ascii_tables None (sample_fs EOF) empty_store)))"
    by (simp add: sample_run)
  have 2: "length (store_calls (snd (main ascii_tables None (sample_fs EOF) empty_store))) = 2"
    by (simp add: sample_run)
  from unique_ips_from_file_always_zero [of 2 ascii_tables None "sample_fs EOF" empty_store]
    unique_ips_from_file_always_zero [OF 1]
  have "UniqueIPsFromFile 2
          \<notin> set (log (snd (main ascii_tables None (sample_fs EOF) empty_store)))"
    by auto
  with 1 2 show ?thesis by blast
qed

text \<open>
  C6, as amended: when reading the log file fails during the scan, the run ends with exit
  status 1 and reports no statistics; \<^verbatim>\<open>print_statistics\<close> runs only after a scan that
  succeeded.
\<close>

theorem read_error_exits_without_statistics:
  assumes "fs (LOG_FILE_PATH env) = File lines ReadError"
  shows "fst (main U env fs d) = 1 \<and> \<not> statistics_reported (snd (main U env fs d))"
proof -
  define W0 where "W0 = \<lparr>db = d, log = [], store_calls = []\<rparr>"
  obtain out P W where m: "main_try U fs (LOG_FILE_PATH env) IPProcessor_init W0 = (out, P, W)"
    by (cases "main_try U fs (LOG_FILE_PATH env) IPProcessor_init W0") auto
  from main_try_result [of U fs "LOG_FILE_PATH env" IPProcessor_init W0] m assms
  have "out = SystemExit 1" by (simp split: if_splits)
  with main_try_stat_log [OF m] have "stat_log W = stat_log W0" by simp
  with main_stat_log [OF m [unfolded W0_def]] have "stat_log (snd (main U env fs d)) = []"
    by (simp add: W0_def stat_log_def)
  moreover from assms have "fst (main U env fs d) = 1" by (simp add: main_exit)
  ultimately show ?thesis by (simp add: statistics_reported_stat_log)
qed

theorem read_error_exits_without_statistics_witness:
  "sample_fs ReadError (LOG_FILE_PATH None) = File [sample_line] ReadError
     \<and> fst (main ascii_tables None (sample_fs ReadError) empty_store) = 1
     \<and> \<not> statistics_reported (snd (main ascii_tables None (sample_fs ReadError) empty_store))"
proof -
  have h: "sample_fs ReadError (LOG_FILE_PATH None) = File [sample_line] ReadError"
    by (simp add: sample_fs_def)
  from read_error_exits_without_statistics
         [where fs = "sample_fs ReadError" and env = None and lines = "[sample_line]", OF h] h
  show ?thesis by blast
qed

text \<open>
  The run behind the amendment of C6: the store is reachable, reading fails after the one
  line of the file.  The scan has counted three addresses, the exit status is 1, and the
  log stream holds no statistics.
\<close>

theorem read_error_statistics_not_reported:
  "fst (process_log_file ascii_tables (sample_fs ReadError) (LOG_FILE_PATH None) connected
          (fresh_world empty_store)) = Inr False
     \<and> stats (fst (snd (process_log_file ascii_tables (sample_fs ReadError) (LOG_FILE_PATH None)
                            connected (fresh_world empty_store)))) total_ips_found = 3
     \<and> fst (main ascii_tables None (sample_fs ReadError) empty_store) = 1
     \<and> log (snd (main ascii_tables None (sample_fs ReadError) empty_store))
         = [Connecting, Connected, StartProcessing (str_of ''/app/logs/sample.log''),
            ErrorProcessing, ProcessingFailed, ConnectionClosed]
     \<and> \<not> statistics_reported (snd (main ascii_tables None (sample_fs ReadError) empty_store))"
  by (simp add: eval_main eval_scan eval_store eval_classify eval_re eval_ip eval_sample
      statistics_reported_def)

section \<open>Storing an address twice\<close>

lemma store_ip_in_mongodb_no_fault:
  assumes "collections P" and "True \<notin> set (take 1 (faults (db W)))"
  shows "store_ip_in_mongodb P ip is_private W
           = (if list_ex (\<lambda>x. doc_ip x = ip) (collection is_private (db W))
              then (False, W\<lparr>store_calls := store_calls W @ [(ip, is_private)],
                             db := (db W)\<lparr>faults := tl (faults (db W))\<rparr>\<rparr>)
              else (True, W\<lparr>store_calls := store_calls W @ [(ip, is_private)],
                            db := insert_one is_private
                                    \<lparr>doc_ip = ip,
                                     doc_type = (if is_private then ''private'' else ''public''),
                                     first_seen = None\<rparr>
                                    ((db W)\<lparr>faults := tl (faults (db W))\<rparr>)\<rparr>))"
proof -
  from assms(2) have "next_fault (db W) = (False, (db W)\<lparr>faults := tl (faults (db W))\<rparr>)"
    by (cases "faults (db W)") (auto simp: next_fault_def)
  with assms(1) show ?thesis
    by (simp add: store_ip_in_mongodb_def update_one_def Let_def collection_def)
qed

text \<open>
  C7: \<^verbatim>\<open>store_ip_in_mongodb\<close> is idempotent.  For a connected processor, a collection that
  holds at most one document for the address, and two calls with the same address and
  classification that the store serves without failure: the first call returns \<^verbatim>\<open>True\<close>
  exactly when the address was not yet stored, the second returns \<^verbatim>\<open>False\<close> and changes
  no collection, and afterwards the collection holds exactly one document for the address.
\<close>

theorem store_ip_idempotent:
  assumes "collections P"
    and "length (filter (\<lambda>x. doc_ip x = ip) (collection is_private (db W))) \<le> 1"
    and "True \<notin> set (take 2 (faults (db W)))"
    and "store_ip_in_mongodb P ip is_private W = (r1, W1)"
    and "store_ip_in_mongodb P ip is_private W1 = (r2, W2)"
  shows "r1 = (\<not> list_ex (\<lambda>x. doc_ip x = ip) (collection is_private (db W)))
       \<and> r2 = False
       \<and> length (filter (\<lambda>x. doc_ip x = ip) (collection is_private (db W2))) = 1
       \<and> public_ips (db W2) = public_ips (db W1) \<and> private_ips (db W2) = private_ips (db W1)"
proof -
  define doc where "doc = \<lparr>doc_ip = ip,
      doc_type = (if is_private then ''private'' else ''public''), first_seen = None\<rparr>"
  define present where "present = list_ex (\<lambda>x. doc_ip x = ip) (collection is_private (db W))"
  from assms(3) have f1: "True \<notin> set (take 1 (faults (db W)))"
    by (cases "faults (db W)") auto
  from store_ip_in_mongodb_no_fault [OF assms(1) f1, of ip is_private] assms(4)
  have r1: "r1 = (\<not> present)"
    and c1: "collection is_private (db W1)
               = collection is_private (db W) @ (if present then [] else [doc])"
    and q1: "faults (db W1) = tl (faults (db W))"
    by (auto simp: present_def doc_def collection_def insert_one_def split: if_splits)
  from assms(3) q1 have f2: "True \<notin> set (take 1 (faults (db W1)))"
    by (cases "faults (db W)"; cases "tl (faults (db W))") auto
  have p1: "list_ex (\<lambda>x. doc_ip x = ip) (collection is_private (db W1))"
    unfolding c1 by (simp add: present_def doc_def)
  from store_ip_in_mongodb_no_fault [OF assms(1) f2, of ip is_private] assms(5) p1
  have r2: "r2 = False" and d2: "db W2 = (db W1)\<lparr>faults := tl (faults (db W1))\<rparr>"
    by auto
  have "length (filter (\<lambda>x. doc_ip x = ip) (collection is_private (db W1))) = 1"
  proof (cases present)
    case True
    then have "filter (\<lambda>x. doc_ip x = ip) (collection is_private (db W)) \<noteq> []"
      by (simp add: present_def list_ex_iff filter_empty_conv)
    with assms(2) have "length (filter (\<lambda>x. doc_ip x = ip) (collection is_private (db W))) = 1"
      by (cases "filter (\<lambda>x. doc_ip x = ip) (collection is_private (db W))") auto
    with True show ?thesis by (simp add: c1)
  next
    case False
    then have "filter (\<lambda>x. doc_ip x = ip) (collection is_private (db W)) = []"
      by (simp add: present_def list_ex_iff filter_empty_conv)
    with False show ?thesis by (simp add: c1 doc_def)
  qed
  moreover from d2 have "collection is_private (db W2) = collection is_private (db W1)"
    "public_ips (db W2) = public_ips (db W1)" "private_ips (db W2) = private_ips (db W1)"
    by (simp_all add: collection_def)
  ultimately show ?thesis using r1 r2
    by (simp add: present_def)
qed

theorem store_ip_idempotent_witness:
  "collections connected
     \<and> length (filter (\<lambda>x. doc_ip x = str_of ''8.8.8.8'')
                 (collection False (db (fresh_world empty_store)))) \<le> 1
     \<and> True \<notin> set (take 2 (faults (db (fresh_world empty_store))))
     \<and> fst (store_ip_in_mongodb connected (str_of ''8.8.8.8'') False (fresh_world empty_store))
         = True
     \<and> fst (store_ip_in_mongodb connected (str_of ''8.8.8.8'') False
              (snd (store_ip_in_mongodb connected (str_of ''8.8.8.8'') False
                      (fresh_world empty_store)))) = False
     \<and> length (filter (\<lambda>x. doc_ip x = str_of ''8.8.8.8'')
                (collection False (db (snd (store_ip_in_mongodb connected (str_of ''8.8.8.8'') False
                   (snd (store_ip_in_mongodb connected (str_of ''8.8.8.8'') False
                      (fresh_world empty_store)))))))) = 1"
proof -
  define W1 where
    "W1 = snd (store_ip_in_mongodb connected (str_of ''8.8.8.8'') False (fresh_world empty_store))"
  have h1: "collections connected" by (simp add: connected_def)
  have h2: "length (filter (\<lambda>x. doc_ip x = str_of ''8.8.8.8'')
                 (collection False (db (fresh_world empty_store)))) \<le> 1"
    by (simp add: fresh_world_def empty_store_def collection_def)
  have h3: "True \<notin> set (take 2 (faults (db (fresh_world empty_store))))"
    by (simp add: fresh_world_def empty_store_def)
  have h4: "store_ip_in_mongodb connected (str_of ''8.8.8.8'') False (fresh_world empty_store)
              = (fst (store_ip_in_mongodb connected (str_of ''8.8.8.8'') False
                        (fresh_world empty_store)), W1)"
    by (simp add: W1_def)
  have h5: "store_ip_in_mongodb connected (str_of ''8.8.8.8'') False W1
              = (fst (store_ip_in_mongodb connected (str_of ''8.8.8.8'') False W1),
                 snd (store_ip_in_mongodb connected (str_of ''8.8.8.8'') False W1))"
    by simp
  have a: "\<not> list_ex (\<lambda>x. doc_ip x = str_of ''8.8.8.8'')
               (collection False (db (fresh_world empty_store)))"
    by (simp add: fresh_world_def empty_store_def collection_def)
  from store_ip_idempotent [OF h1 h2 h3 h4 h5] a h1 h2 h3 show ?thesis
    unfolding W1_def by simp
qed

section \<open>A store call that fails\<close>

text \<open>
  C2: when the store call for the first occurrence of an address fails, the scan goes on
  with the next address and none of the three outcome counters is incremented for that
  address.  The code does the first and not the second.  In the run below the file holds
  the one address 8.8.8.8 and its store call fails: the scan reaches the end of the file,
  nothing is stored, and \<^verbatim>\<open>duplicate_ips_skipped\<close> is 1 ("Database duplicates skipped: 1"
  beside "Total public IPs in database: 0").
\<close>

theorem store_error_counted_as_duplicate:
  "main ascii_tables None (\<lambda>path. File [str_of ''8.8.8.8''] EOF) (empty_store\<lparr>faults := [True]\<rparr>)
     = (0, \<lparr>db = empty_store,
             log = [Connecting, Connected, StartProcessing (str_of ''/app/logs/sample.log''),
                    ErrorStoringIP (str_of ''8.8.8.8''), ProcessingCompleted,
                    StatisticsHeader, TotalLinesProcessed 1, TotalIPsFound 1,
                    WithinFileDuplicates 0, UniqueIPsFromFile 0, NewPublicStored 0,
                    NewPrivateStored 0, DatabaseDuplicatesSkipped 1,
                    TotalPublicInDatabase 0, TotalPrivateInDatabase 0,
                    MathCheckProcessed 1, MathCheckShouldEqual 1,
                    CompletedSuccessfully, ConnectionClosed],
             store_calls = [(str_of ''8.8.8.8'', False)]\<rparr>)"
  by (simp add: eval_main eval_scan eval_store eval_classify eval_re eval_ip eval_sample)

end
